theory Spec2Isabelle
  imports Complex_Main "HOL-Library.AList"
begin

section \<open>Exceptions and outcomes\<close>

text \<open>
  The script is Python: every function either returns, raises, or (in one place, the wait
  for free disk space) blocks for ever. Exceptions are values of \<open>exn\<close>; a computation
  that can only return or raise has the type \<open>exn + 'a\<close> (\<open>Inl\<close> the exception).
  \<open>ApiError txt\<close> is an exception raised by the API client whose \<open>str(e)\<close> is \<open>txt\<close>.
\<close>

datatype exn =
    ValueError
  | OverflowError
  | KeyError string
  | IndexError
  | FileExistsError
  | NotADirectoryError
  | IsADirectoryError
  | FileNotFoundError
  | ApiError string
  | SizeMismatch

section \<open>Dates\<close>

text \<open>
  \<open>main\<close> builds \<open>from_date\<close> and \<open>to_date\<close> with \<open>datetime.datetime(year, month, day)\<close>,
  that is, at midnight, and the script only ever adds whole days to them. Such a datetime
  is represented by its proleptic Gregorian ordinal (\<open>date.toordinal()\<close>): day 1 is
  0001-01-01 and \<open>max_ordinal\<close> is 9999-12-31, the last date the type holds. Adding a
  \<open>timedelta\<close> that leaves this range raises \<open>OverflowError\<close>.
\<close>

definition max_ordinal :: int where
  "max_ordinal = 3652059"

definition is_leap :: "int \<Rightarrow> bool" where
  "is_leap y = (y mod 4 = 0 \<and> (y mod 100 \<noteq> 0 \<or> y mod 400 = 0))"

definition days_in_month :: "int \<Rightarrow> int \<Rightarrow> int" where
  "days_in_month y m =
     (if m = 2 then (if is_leap y then 29 else 28)
      else if m = 4 \<or> m = 6 \<or> m = 9 \<or> m = 11 then 30 else 31)"

definition days_before_year :: "int \<Rightarrow> int" where
  "days_before_year y = (y - 1) * 365 + (y - 1) div 4 - (y - 1) div 100 + (y - 1) div 400"

definition days_before_month :: "int \<Rightarrow> int \<Rightarrow> int" where
  "days_before_month y m = sum_list (map (days_in_month y) [1..m - 1])"

definition ymd2ord :: "int \<Rightarrow> int \<Rightarrow> int \<Rightarrow> int" where
  "ymd2ord y m d = days_before_year y + days_before_month y m + d"

text \<open>
  \<open>datetime.datetime(y, m, d)\<close>: the constructor first reads each field into a C \<open>int\<close>
  (32 bits) and raises \<open>OverflowError\<close> for one that does not fit; then \<open>ValueError\<close>
  unless the three fields name a day.
\<close>

definition fits_c_int :: "int \<Rightarrow> bool" where
  "fits_c_int x = (- 2147483648 \<le> x \<and> x \<le> 2147483647)"

definition datetime_new :: "int \<Rightarrow> int \<Rightarrow> int \<Rightarrow> exn + int" where
  "datetime_new y m d =
     (if \<not> (fits_c_int y \<and> fits_c_int m \<and> fits_c_int d) then Inl OverflowError
      else if 1 \<le> y \<and> y \<le> 9999 \<and> 1 \<le> m \<and> m \<le> 12 \<and> 1 \<le> d \<and> d \<le> days_in_month y m
      then Inr (ymd2ord y m d) else Inl ValueError)"

text \<open>\<open>date + datetime.timedelta(days=n)\<close>.\<close>

definition add_days :: "int \<Rightarrow> int \<Rightarrow> exn + int" where
  "add_days date n =
     (if 1 \<le> date + n \<and> date + n \<le> max_ordinal then Inr (date + n) else Inl OverflowError)"

text \<open>\<open>date.weekday()\<close>: 0 is Monday, 6 is Sunday.\<close>

definition weekday :: "int \<Rightarrow> int" where
  "weekday date = (date + 6) mod 7"

section \<open>Configuration\<close>

text \<open>
  The module \<open>config\<close>, with the settings the modelled functions read. \<open>START_DAY\<close> and
  \<open>END_DAY\<close> are used as \<open>CONFIG.START_DAY or 1\<close>: the value 0 stands for every falsy
  setting. \<open>MIN_FILE_SIZE\<close> is a number of megabytes and may be fractional.
\<close>

record config =
  USE_EXACT_DATE :: bool
  START_YEAR :: int
  START_MONTH :: int
  START_DAY :: int
  END_YEAR :: int
  END_MONTH :: int
  END_DAY :: int
  CHECK_FRIDAY_WEEKENDS :: bool
  TOPICS :: "string list"
  RECORDING_FILE_TYPES :: "string list"
  INCLUDE_PARTICIPANT_AUDIO :: bool
  USE_MEETING_TOPIC_NAME :: bool
  MIN_FILE_SIZE :: rat
  FILE_SIZE_MISMATCH_TOLERANCE :: int
  MINIMUM_FREE_DISK :: int
  GROUP_BY_TOPIC :: bool
  GROUP_BY_RECORDING :: bool

section \<open>main: the requested date range\<close>

text \<open>
  Lines 67 to 69 of \<open>main\<close>:
  \<^verbatim>\<open>if CONFIG.CHECK_FRIDAY_WEEKENDS and from_date.weekday() == 4:
      to_date += datetime.timedelta(days=2)\<close>
  The function returns the new \<open>to_date\<close>.
\<close>

definition friday_weekend :: "config \<Rightarrow> int \<Rightarrow> int \<Rightarrow> exn + int" where
  "friday_weekend cfg from_date to_date =
     (if CHECK_FRIDAY_WEEKENDS cfg \<and> weekday from_date = 4
      then add_days to_date 2 else Inr to_date)"

text \<open>
  Lines 54 to 69 of \<open>main\<close>: the pair \<open>(from_date, to_date)\<close> handed to
  \<open>download_recordings\<close>. The triple is what the user types when
  \<open>USE_EXACT_DATE\<close> is set.
\<close>

definition main_dates :: "config \<Rightarrow> int \<times> int \<times> int \<Rightarrow> exn + (int \<times> int)" where
  "main_dates cfg typed =
     (case (if USE_EXACT_DATE cfg
            then (case typed of (year, month, day) \<Rightarrow>
                    (case datetime_new year month day of
                       Inl e \<Rightarrow> Inl e
                     | Inr from_date \<Rightarrow> Inr (from_date, from_date)))
            else (case datetime_new (START_YEAR cfg) (START_MONTH cfg)
                         (if START_DAY cfg = 0 then 1 else START_DAY cfg) of
                    Inl e \<Rightarrow> Inl e
                  | Inr from_date \<Rightarrow>
                      if END_DAY cfg = 0 \<and> \<not> (1 \<le> END_MONTH cfg \<and> END_MONTH cfg \<le> 12)
                      then Inl ValueError
                      else (case datetime_new (END_YEAR cfg) (END_MONTH cfg)
                                   (if END_DAY cfg = 0
                                    then days_in_month (END_YEAR cfg) (END_MONTH cfg)
                                    else END_DAY cfg) of
                              Inl e \<Rightarrow> Inl e
                            | Inr to_date \<Rightarrow> Inr (from_date, to_date)))) of
        Inl e \<Rightarrow> Inl e
      | Inr (from_date, to_date) \<Rightarrow>
          (case friday_weekend cfg from_date to_date of
             Inl e \<Rightarrow> Inl e
           | Inr to_date' \<Rightarrow> Inr (from_date, to_date')))"

section \<open>get_meeting_uuids: the recording enumerator\<close>

text \<open>
  A page of the recordings listing is the list \<open>page['meetings']\<close>; of each listed meeting
  the code reads \<open>meeting['uuid']\<close> and \<open>meeting.get('topic', 'Unknown Topic')\<close>.

  \<open>client.paginate\<close> is the API client, outside this file: it is a parameter. Its first
  argument is the number of listings requested before in this call (the server may answer
  the same request differently each time); the URL
  \<open>.../users/{user_email}/recordings?from={from}&to={to}\<close> is kept as its three parts, the
  dates unformatted. \<open>Inl txt\<close> is an exception with text \<open>txt\<close>.

  The loop returns, beside its result, the list of windows it has queried, in order.
\<close>

type_synonym listed_meeting = "string \<times> string option"

type_synonym paginate = "nat \<Rightarrow> string \<Rightarrow> int \<Rightarrow> int \<Rightarrow> string + listed_meeting list list"

definition meeting_data_of_page :: "listed_meeting list \<Rightarrow> (string \<times> string) list" where
  "meeting_data_of_page page =
     map (\<lambda>(uuid, topic). (uuid, case topic of None \<Rightarrow> ''Unknown Topic'' | Some t \<Rightarrow> t)) page"

function get_meeting_uuids_loop ::
  "paginate \<Rightarrow> string \<Rightarrow> int \<Rightarrow> int \<Rightarrow> (string \<times> string) list \<Rightarrow> (int \<times> int) list
     \<Rightarrow> (exn + (string \<times> string) list) \<times> (int \<times> int) list" where
  "get_meeting_uuids_loop paginate user_email end_date local_start_date meeting_data_list queried =
     (if local_start_date \<le> end_date then
        (case add_days local_start_date 29 of
           Inl e \<Rightarrow> (Inl e, queried)
         | Inr local_start_plus_delta \<Rightarrow>
             (let local_end_date = min local_start_plus_delta end_date in
              case paginate (length queried) user_email local_start_date local_end_date of
                Inl txt \<Rightarrow> (Inl (ApiError txt), queried @ [(local_start_date, local_end_date)])
              | Inr pages \<Rightarrow>
                  (let data_chunk = concat (map meeting_data_of_page pages) in
                   case add_days local_end_date 1 of
                     Inl e \<Rightarrow> (Inl e, queried @ [(local_start_date, local_end_date)])
                   | Inr next_start_date \<Rightarrow>
                       get_meeting_uuids_loop paginate user_email end_date next_start_date
                         (meeting_data_list @ rev data_chunk)
                         (queried @ [(local_start_date, local_end_date)]))))
      else (Inr meeting_data_list, queried))"
  by pat_completeness auto
termination
  by (relation "measure (\<lambda>(paginate, user_email, end_date, local_start_date, rest).
                  nat (end_date - local_start_date + 1))")
     (auto simp: add_days_def split: if_splits)

declare get_meeting_uuids_loop.simps [simp del]

definition get_meeting_uuids ::
  "paginate \<Rightarrow> string \<Rightarrow> int \<Rightarrow> int
     \<Rightarrow> (exn + (string \<times> string) list) \<times> (int \<times> int) list" where
  "get_meeting_uuids paginate user_email start_date end_date =
     get_meeting_uuids_loop paginate user_email end_date start_date [] []"

section \<open>Strings\<close>

text \<open>
  Python strings are modelled as lists of characters; the names below are those of the
  string operations the script uses. \<open>str_contains sub s\<close> is \<open>sub in s\<close>.
\<close>

fun starts_with :: "string \<Rightarrow> string \<Rightarrow> bool" where
  "starts_with [] s = True"
| "starts_with (p # ps) [] = False"
| "starts_with (p # ps) (c # cs) = (p = c \<and> starts_with ps cs)"

fun str_contains :: "string \<Rightarrow> string \<Rightarrow> bool" where
  "str_contains sub [] = (sub = [])"
| "str_contains sub (c # cs) = (starts_with sub (c # cs) \<or> str_contains sub cs)"

text \<open>\<open>s.lower()\<close> on ASCII letters; every other character is left as it is.\<close>

definition lower_char :: "char \<Rightarrow> char" where
  "lower_char c =
     (if 65 \<le> (of_char c :: nat) \<and> (of_char c :: nat) \<le> 90
      then char_of ((of_char c :: nat) + 32) else c)"

definition lower :: "string \<Rightarrow> string" where
  "lower s = map lower_char s"

text \<open>\<open>str(i)\<close> of a natural number, as the f-string \<open>f'{i}'\<close> prints it.\<close>

definition digit_char :: "nat \<Rightarrow> char" where
  "digit_char d = char_of (48 + d)"

fun str_nat :: "nat \<Rightarrow> string" where
  "str_nat n = (if n < 10 then [digit_char n] else str_nat (n div 10) @ [digit_char (n mod 10)])"

declare str_nat.simps [simp del]

section \<open>get_meetings: the meeting fetcher\<close>

text \<open>
  The JSON objects of the API are dictionaries: every key the code reads is a field
  holding \<open>None\<close> when the key is absent. Reading an absent key with
  \<open>d['key']\<close> raises \<open>KeyError\<close>; \<open>d.get('key')\<close> and \<open>'key' in d\<close> do not.
\<close>

record recording_file =
  rf_id :: "string option"
  rf_file_type :: "string option"
  rf_file_extension :: "string option"
  rf_file_name :: "string option"
  rf_file_size :: "int option"
  rf_download_url :: "string option"
  rf_recording_start :: "string option"
  rf_recording_type :: "string option"

record meeting =
  m_topic :: "string option"
  m_recording_files :: "recording_file list option"
  m_participant_audio_files :: "recording_file list option"

text \<open>
  \<open>client.get\<close> and \<open>utils.double_encode\<close> are parameters. The first argument of
  \<open>client_get\<close> is the number of meetings requested before in this call; \<open>Inl txt\<close> is an
  exception \<open>e\<close> with \<open>str(e) = txt\<close>. The global list \<open>SKIPPED_MEETINGS\<close> is passed in and
  returned: the loop returns it also when it raises, since the list outlives the call.
\<close>

type_synonym client_get = "nat \<Rightarrow> string \<Rightarrow> string + meeting"

definition meeting_recordings_url :: "(string \<Rightarrow> string) \<Rightarrow> string \<Rightarrow> string" where
  "meeting_recordings_url double_encode meeting_uuid =
     ''https://api.zoom.us/v2/meetings/'' @ double_encode meeting_uuid @ ''/recordings''"

fun get_meetings_loop ::
  "client_get \<Rightarrow> (string \<Rightarrow> string) \<Rightarrow> nat \<Rightarrow> (string \<times> string) list
     \<Rightarrow> meeting list \<Rightarrow> string list \<Rightarrow> (exn + meeting list) \<times> string list" where
  "get_meetings_loop client_get double_encode k [] meetings SKIPPED_MEETINGS =
     (Inr meetings, SKIPPED_MEETINGS)"
| "get_meetings_loop client_get double_encode k ((meeting_uuid, meeting_topic) # rest)
       meetings SKIPPED_MEETINGS =
     (case client_get k (meeting_recordings_url double_encode meeting_uuid) of
        Inr m \<Rightarrow>
          get_meetings_loop client_get double_encode (Suc k) rest (meetings @ [m]) SKIPPED_MEETINGS
      | Inl e \<Rightarrow>
          if str_contains ''3301'' e then
            get_meetings_loop client_get double_encode (Suc k) rest meetings
              (SKIPPED_MEETINGS @ [''Meeting: '' @ [CHR 0x27] @ meeting_topic @ [CHR 0x27] @ '' (Still Processing)''])
          else if str_contains ''404'' e then
            get_meetings_loop client_get double_encode (Suc k) rest meetings
              (SKIPPED_MEETINGS @ [''Meeting: '' @ [CHR 0x27] @ meeting_topic @ [CHR 0x27] @ '' (Not Found / 404)''])
          else (Inl (ApiError e), SKIPPED_MEETINGS))"

definition get_meetings ::
  "client_get \<Rightarrow> (string \<Rightarrow> string) \<Rightarrow> (string \<times> string) list \<Rightarrow> string list
     \<Rightarrow> (exn + meeting list) \<times> string list" where
  "get_meetings client_get double_encode meeting_data SKIPPED_MEETINGS =
     (if meeting_data \<noteq> []
      then get_meetings_loop client_get double_encode 0 meeting_data [] SKIPPED_MEETINGS
      else (Inr [], SKIPPED_MEETINGS))"

section \<open>Paths and the file system\<close>

text \<open>
  Paths are strings, with the POSIX separator. \<open>join\<close> is \<open>os.path.join\<close> of two parts and
  \<open>splitext\<close> is \<open>os.path.splitext\<close>: the extension starts at the last dot of the last
  component, unless that component has only dots before it.
\<close>

definition join :: "string \<Rightarrow> string \<Rightarrow> string" where
  "join a b =
     (if starts_with ''/'' b then b
      else if a = [] \<or> last a = CHR ''/'' then a @ b
      else a @ ''/'' @ b)"

fun find_last :: "char \<Rightarrow> string \<Rightarrow> int \<Rightarrow> int \<Rightarrow> int" where
  "find_last c [] i found = found"
| "find_last c (x # xs) i found = find_last c xs (i + 1) (if x = c then i else found)"

definition rfind :: "char \<Rightarrow> string \<Rightarrow> int" where
  "rfind c p = find_last c p 0 (- 1)"

definition splitext :: "string \<Rightarrow> string \<times> string" where
  "splitext p =
     (let sepIndex = rfind CHR ''/'' p; dotIndex = rfind CHR ''.'' p in
      if dotIndex > sepIndex \<and>
         list_ex (\<lambda>c. c \<noteq> CHR ''.'')
           (take (nat (dotIndex - (sepIndex + 1))) (drop (nat (sepIndex + 1)) p))
      then (take (nat dotIndex) p, drop (nat dotIndex) p)
      else (p, []))"

text \<open>\<open>re.sub(r'[\\/*?:"<>|]', "", file_name)\<close>\<close>

definition unsafe_chars :: "char list" where
  "unsafe_chars =
     [CHR 0x5C, CHR ''/'', CHR ''*'', CHR ''?'', CHR '':'', CHR 0x22, CHR ''<'', CHR ''>'', CHR ''|'']"

definition re_sub_unsafe :: "string \<Rightarrow> string" where
  "re_sub_unsafe file_name = filter (\<lambda>c. c \<notin> set unsafe_chars) file_name"

text \<open>
  The file system is a finite table from paths to entries: a regular file with its size,
  or a directory with the size \<open>os.path.getsize\<close> reports for it. The operations are those
  of \<open>os\<close> and \<open>os.path\<close> on POSIX.

  Two paths name the same entry when they are the same string. The table therefore stands
  for the file system on paths whose components are proper names: a path with an empty
  component, or a component \<open>.\<close> or \<open>..\<close>, names on a real file system an entry that
  another string names too (\<open>out/\<close> and \<open>out/.\<close> are the directory \<open>out\<close>), and the
  table does not know it. Such a path arises only from a file name that is empty, \<open>.\<close> or
  \<open>..\<close> after the unsafe characters are removed, or from a topic or an output path with
  such a component.
\<close>

datatype entry = File int | Dir int

type_synonym filesystem = "(string \<times> entry) list"

definition path_exists :: "filesystem \<Rightarrow> string \<Rightarrow> bool" where
  "path_exists fs p = (map_of fs p \<noteq> None)"

definition getsize :: "filesystem \<Rightarrow> string \<Rightarrow> exn + int" where
  "getsize fs p =
     (case map_of fs p of
        None \<Rightarrow> Inl FileNotFoundError
      | Some (File n) \<Rightarrow> Inr n
      | Some (Dir n) \<Rightarrow> Inr n)"

definition remove :: "filesystem \<Rightarrow> string \<Rightarrow> exn + filesystem" where
  "remove fs p =
     (case map_of fs p of
        None \<Rightarrow> Inl FileNotFoundError
      | Some (File n) \<Rightarrow> Inr (AList.delete p fs)
      | Some (Dir n) \<Rightarrow> Inl IsADirectoryError)"

definition rename :: "filesystem \<Rightarrow> string \<Rightarrow> string \<Rightarrow> exn + filesystem" where
  "rename fs src dst =
     (case map_of fs src of
        None \<Rightarrow> Inl FileNotFoundError
      | Some (Dir n) \<Rightarrow>
          (case map_of fs dst of
             Some (File k) \<Rightarrow> Inl NotADirectoryError
           | _ \<Rightarrow> Inr (AList.update dst (Dir n) (AList.delete src fs)))
      | Some (File n) \<Rightarrow>
          (case map_of fs dst of
             Some (Dir k) \<Rightarrow> Inl IsADirectoryError
           | _ \<Rightarrow> Inr (AList.update dst (File n) (AList.delete src fs))))"

text \<open>
  \<open>os.makedirs(folder_path, exist_ok=True)\<close>: every missing directory on the way to
  \<open>folder_path\<close> is created, with the size \<open>dir_size\<close> the file system gives a new
  directory; a regular file on the way makes the call raise, and so does the empty path
  (\<open>os.mkdir('')\<close> raises \<open>FileNotFoundError\<close>).
\<close>

definition parent_dirs :: "string \<Rightarrow> string list" where
  "parent_dirs p = map (\<lambda>k. take k p) (filter (\<lambda>k. p ! k = CHR ''/'') [1..<length p])"

definition is_file :: "filesystem \<Rightarrow> string \<Rightarrow> bool" where
  "is_file fs p = (case map_of fs p of Some (File n) \<Rightarrow> True | _ \<Rightarrow> False)"

definition mkdir_if_missing :: "int \<Rightarrow> filesystem \<Rightarrow> string \<Rightarrow> filesystem" where
  "mkdir_if_missing dir_size fs d = (if path_exists fs d then fs else AList.update d (Dir dir_size) fs)"

definition makedirs :: "int \<Rightarrow> filesystem \<Rightarrow> string \<Rightarrow> exn + filesystem" where
  "makedirs dir_size fs folder_path =
     (if folder_path = [] then Inl FileNotFoundError
      else if list_ex (is_file fs) (parent_dirs folder_path) then Inl NotADirectoryError
      else if is_file fs folder_path then Inl FileExistsError
      else Inr (foldl (mkdir_if_missing dir_size) fs (parent_dirs folder_path @ [folder_path])))"

section \<open>The world of a download\<close>

text \<open>
  What a download reads from outside the program is the record \<open>env\<close>:
  \<^item> \<open>net k url\<close> is what the \<open>k\<close>-th transfer of the run does when it fetches \<open>url\<close>:
    \<open>Inr n\<close>, it completes and has written \<open>n\<close> bytes; \<open>Inl (txt, left)\<close>, it breaks with an
    exception of text \<open>txt\<close>, leaving \<open>left\<close> bytes at the output path if \<open>left\<close> is not
    \<open>None\<close>;
  \<^item> \<open>free_disk k\<close> is the free space the \<open>k\<close>-th poll of the disk finds;
  \<^item> \<open>new_dir_size\<close> is the size of a directory that \<open>os.makedirs\<close> creates.

  What a download changes is the record \<open>world\<close>: the file system, the list of events so
  far, the number of transfers started and the number of polls made. The events are the
  two messages \<open>Skipping: ...\<close> and \<open>Skipping existing file: ...\<close>, each with the file
  name it prints, and the three effects on the file system: \<open>os.remove(path)\<close>, a transfer
  from a URL to a path with the number of bytes of a completed one, and
  \<open>os.rename(src, dst)\<close>.
\<close>

record env =
  net :: "nat \<Rightarrow> string \<Rightarrow> (string \<times> int option) + int"
  free_disk :: "nat \<Rightarrow> int"
  new_dir_size :: int

datatype event =
    Skipping string
  | Skipping_existing string
  | Removed string
  | Transfer string string "int option"
  | Renamed string string

record world =
  disk :: filesystem
  events :: "event list"
  transfers :: nat
  polls :: nat

definition emit :: "event \<Rightarrow> world \<Rightarrow> world" where
  "emit ev w = w\<lparr>events := events w @ [ev]\<rparr>"

text \<open>
  A download returns, raises or blocks.
\<close>

datatype 'a outcome = Returns 'a | Raises exn | Blocks

section \<open>create_path\<close>

definition create_path ::
  "config \<Rightarrow> env \<Rightarrow> string \<Rightarrow> string \<Rightarrow> string \<Rightarrow> string \<Rightarrow> world \<Rightarrow> (exn + string) \<times> world" where
  "create_path cfg ev host_folder file_name topic recording_name w =
     (let folder_path = host_folder;
          folder_path = (if GROUP_BY_TOPIC cfg then join folder_path topic else folder_path);
          folder_path = (if GROUP_BY_RECORDING cfg then join folder_path recording_name else folder_path)
      in case makedirs (new_dir_size ev) (disk w) folder_path of
           Inl e \<Rightarrow> (Inl e, w)
         | Inr fs' \<Rightarrow> (Inr (join folder_path file_name), w\<lparr>disk := fs'\<rparr>))"

section \<open>download_recording_file\<close>

text \<open>
  \<open>suffixed base_name i ext\<close> is the f-string \<open>f'{base_name}_{i}{ext}'\<close>. The loop
  \<^verbatim>\<open>while os.path.exists(os.path.join(host_folder, f'{base_name}_{i}{ext}')): i += 1\<close>
  ends because the file system is finite and the names it tries are all different.
\<close>

definition suffixed :: "string \<Rightarrow> nat \<Rightarrow> string \<Rightarrow> string" where
  "suffixed base_name i ext = base_name @ ''_'' @ str_nat i @ ext"

lemma digit_char_inj: "a < 10 \<Longrightarrow> b < 10 \<Longrightarrow> digit_char a = digit_char b \<Longrightarrow> a = b"
proof -
  assume a: "a < 10" and b: "b < 10" and e: "digit_char a = digit_char b"
  have "(of_char (digit_char a) :: nat) = of_char (digit_char b)" using e by simp
  then show ?thesis using a b by (simp add: digit_char_def)
qed

lemma str_nat_not_Nil: "str_nat n \<noteq> []"
  by (subst str_nat.simps) simp

lemma str_nat_inj: "str_nat n = str_nat m \<Longrightarrow> n = m"
proof (induction n arbitrary: m rule: str_nat.induct)
  case (1 n)
  show ?case
  proof (cases "n < 10")
    case True
    then have n: "str_nat n = [digit_char n]" by (subst str_nat.simps) simp
    show ?thesis
    proof (cases "m < 10")
      case m: True
      then have "str_nat m = [digit_char m]" by (subst str_nat.simps) simp
      with n "1.prems" True m show ?thesis by (auto dest: digit_char_inj)
    next
      case m: False
      then have "str_nat m = str_nat (m div 10) @ [digit_char (m mod 10)]"
        by (subst str_nat.simps) simp
      with n "1.prems" show ?thesis using str_nat_not_Nil [of "m div 10"] by simp
    qed
  next
    case False
    then have n: "str_nat n = str_nat (n div 10) @ [digit_char (n mod 10)]"
      by (subst str_nat.simps) simp
    show ?thesis
    proof (cases "m < 10")
      case m: True
      then have "str_nat m = [digit_char m]" by (subst str_nat.simps) simp
      with n "1.prems" show ?thesis using str_nat_not_Nil [of "n div 10"] by simp
    next
      case m: False
      then have "str_nat m = str_nat (m div 10) @ [digit_char (m mod 10)]"
        by (subst str_nat.simps) simp
      with n "1.prems" have e: "str_nat (n div 10) = str_nat (m div 10)"
        "digit_char (n mod 10) = digit_char (m mod 10)" by simp_all
      have "n div 10 = m div 10" using "1.IH" [OF False e(1)] .
      moreover have "n mod 10 = m mod 10" using e(2) by (intro digit_char_inj) simp_all
      ultimately show ?thesis by (metis div_mult_mod_eq)
    qed
  qed
qed

lemma join_suffixed_inj: "join h (suffixed b i e) = join h (suffixed b j e) \<Longrightarrow> i = j"
proof -
  assume a: "join h (suffixed b i e) = join h (suffixed b j e)"
  have "starts_with ''/'' (suffixed b i e) = starts_with ''/'' (suffixed b j e)"
    by (cases b) (simp_all add: suffixed_def)
  then have "suffixed b i e = suffixed b j e"
    using a by (auto simp: join_def split: if_splits)
  then show ?thesis by (simp add: suffixed_def str_nat_inj)
qed

lemma finite_probe_set: "finite {j. path_exists fs (join h (suffixed b j e))}"
proof -
  have "inj (\<lambda>j. join h (suffixed b j e))" by (rule injI) (rule join_suffixed_inj)
  then have "finite ((\<lambda>j. join h (suffixed b j e)) -` (fst ` set fs))"
    by (intro finite_vimageI) simp_all
  moreover have "{j. path_exists fs (join h (suffixed b j e))}
                   \<subseteq> (\<lambda>j. join h (suffixed b j e)) -` (fst ` set fs)"
    by (auto simp: path_exists_def map_of_eq_None_iff)
  ultimately show ?thesis by (rule rev_finite_subset)
qed

function probe :: "filesystem \<Rightarrow> string \<Rightarrow> string \<Rightarrow> string \<Rightarrow> nat \<Rightarrow> nat" where
  "probe fs host_folder base_name ext i =
     (if path_exists fs (join host_folder (suffixed base_name i ext))
      then probe fs host_folder base_name ext (i + 1) else i)"
  by pat_completeness auto
termination
proof (relation "measure (\<lambda>(fs, h, b, e, i). card {j. i \<le> j \<and> path_exists fs (join h (suffixed b j e))})")
  show "wf (measure (\<lambda>(fs, h, b, e, i). card {j. i \<le> j \<and> path_exists fs (join h (suffixed b j e))}))"
    by simp
next
  fix fs :: filesystem and host_folder base_name ext :: string and i :: nat
  assume ex: "path_exists fs (join host_folder (suffixed base_name i ext))"
  let ?S = "\<lambda>i. {j. i \<le> j \<and> path_exists fs (join host_folder (suffixed base_name j ext))}"
  have fin: "finite (?S i)"
    by (rule finite_subset [OF _ finite_probe_set [of fs host_folder base_name ext]]) auto
  have "i \<in> ?S i" "i \<notin> ?S (i + 1)" "?S (i + 1) \<subseteq> ?S i" using ex by auto
  then have "?S (i + 1) \<subset> ?S i" by blast
  then have "card (?S (i + 1)) < card (?S i)" using fin by (rule psubset_card_mono [rotated])
  then show "((fs, host_folder, base_name, ext, i + 1), (fs, host_folder, base_name, ext, i))
        \<in> measure (\<lambda>(fs, h, b, e, i). card {j. i \<le> j \<and> path_exists fs (join h (suffixed b j e))})"
    by simp
qed

declare probe.simps [simp del]

text \<open>
  Lines 281 to 291: the destination of the file. The result is the pair
  \<open>(file_name, file_path)\<close> the rest of the function works with.
\<close>

definition resolve_destination ::
  "config \<Rightarrow> env \<Rightarrow> string \<Rightarrow> string \<Rightarrow> string \<Rightarrow> world \<Rightarrow> (exn + string \<times> string) \<times> world" where
  "resolve_destination cfg ev host_folder file_name topic w =
     (case create_path cfg ev host_folder file_name topic file_name w of
        (Inl e, w1) \<Rightarrow> (Inl e, w1)
      | (Inr file_path, w1) \<Rightarrow>
          if path_exists (disk w1) file_path then
            (case splitext file_name of
               (base_name, ext) \<Rightarrow>
                 (let i = probe (disk w1) host_folder base_name ext 1;
                      file_name' = suffixed base_name i ext
                  in case create_path cfg ev host_folder file_name' topic file_name' w1 of
                       (Inl e, w2) \<Rightarrow> (Inl e, w2)
                     | (Inr file_path', w2) \<Rightarrow> (Inr (file_name', file_path'), w2)))
          else (Inr (file_name, file_path), w1))"

text \<open>
  Modelled from the spec: \<open>utils.wait_for_disk_space\<close> is not among the sources. The spec
  has it block until the free disk space at the output root exceeds the file size by a
  safety margin, polling at a fixed interval, with no timeout. The margin is the setting
  \<open>MINIMUM_FREE_DISK\<close> the call passes. The result is the number of polls made so far;
  \<open>None\<close> is a wait that never ends.
\<close>

partial_function (option) wait_for_disk_space :: "(nat \<Rightarrow> int) \<Rightarrow> int \<Rightarrow> int \<Rightarrow> nat \<Rightarrow> nat option" where
  "wait_for_disk_space free file_size minimum_free_disk k =
     (if file_size + minimum_free_disk \<le> free k then Some (Suc k)
      else wait_for_disk_space free file_size minimum_free_disk (Suc k))"

declare wait_for_disk_space.simps [code]

text \<open>
  Modelled from the spec: \<open>utils.download_with_progress\<close> is not among the sources. The
  spec has it stream the file to the path it is given and verify the transferred size
  against the expected size within the tolerance; on a mismatch the transfer has failed
  and an error propagates. A path that is a directory cannot be written.
  \<open>client.do_with_token\<close> calls it once, with a token that is left out of the URL here.
\<close>

definition is_dir :: "filesystem \<Rightarrow> string \<Rightarrow> bool" where
  "is_dir fs p = (case map_of fs p of Some (Dir n) \<Rightarrow> True | _ \<Rightarrow> False)"

definition download_with_progress ::
  "env \<Rightarrow> string \<Rightarrow> string \<Rightarrow> int \<Rightarrow> int \<Rightarrow> world \<Rightarrow> (exn + unit) \<times> world" where
  "download_with_progress ev url output_path expected_size size_tolerance w =
     (let w1 = w\<lparr>transfers := Suc (transfers w)\<rparr> in
      if is_dir (disk w) output_path
      then (Inl IsADirectoryError, emit (Transfer url output_path None) w1)
      else case net ev (transfers w) url of
             Inl (txt, left) \<Rightarrow>
               (Inl (ApiError txt),
                emit (Transfer url output_path None)
                  (case left of
                     None \<Rightarrow> w1
                   | Some n \<Rightarrow> w1\<lparr>disk := AList.update output_path (File n) (disk w)\<rparr>))
           | Inr n \<Rightarrow>
               (let w2 = emit (Transfer url output_path (Some n))
                           (w1\<lparr>disk := AList.update output_path (File n) (disk w)\<rparr>)
                in if \<bar>n - expected_size\<bar> \<le> size_tolerance then (Inr (), w2)
                   else (Inl SizeMismatch, w2)))"

text \<open>Lines 300 to 313: wait for disk space, download to the temporary path, rename.\<close>

definition download_and_rename ::
  "config \<Rightarrow> env \<Rightarrow> string \<Rightarrow> string \<Rightarrow> int \<Rightarrow> world \<Rightarrow> bool outcome \<times> world" where
  "download_and_rename cfg ev download_url file_path file_size w =
     (case wait_for_disk_space (free_disk ev) file_size (MINIMUM_FREE_DISK cfg) (polls w) of
        None \<Rightarrow> (Blocks, w)
      | Some k \<Rightarrow>
          (let tmp_file_path = file_path @ ''.tmp'' in
           case download_with_progress ev download_url tmp_file_path file_size
                  (FILE_SIZE_MISMATCH_TOLERANCE cfg) (w\<lparr>polls := k\<rparr>) of
             (Inl e, w1) \<Rightarrow> (Raises e, w1)
           | (Inr u, w1) \<Rightarrow>
               (case rename (disk w1) tmp_file_path file_path of
                  Inl e \<Rightarrow> (Raises e, w1)
                | Inr fs' \<Rightarrow>
                    (Returns True, emit (Renamed tmp_file_path file_path) (w1\<lparr>disk := fs'\<rparr>)))))"

text \<open>Lines 293 to 313: what is done with the resolved destination.\<close>

definition existing_or_download ::
  "config \<Rightarrow> env \<Rightarrow> string \<Rightarrow> string \<Rightarrow> string \<Rightarrow> int \<Rightarrow> world \<Rightarrow> bool outcome \<times> world" where
  "existing_or_download cfg ev download_url file_name file_path file_size w =
     (if path_exists (disk w) file_path then
        (case getsize (disk w) file_path of
           Inl e \<Rightarrow> (Raises e, w)
         | Inr n \<Rightarrow>
             if \<bar>n - file_size\<bar> \<le> FILE_SIZE_MISMATCH_TOLERANCE cfg
             then (Returns False, emit (Skipping_existing file_name) w)
             else (case remove (disk w) file_path of
                     Inl e \<Rightarrow> (Raises e, w)
                   | Inr fs' \<Rightarrow>
                       download_and_rename cfg ev download_url file_path file_size
                         (emit (Removed file_path) (w\<lparr>disk := fs'\<rparr>))))
      else download_and_rename cfg ev download_url file_path file_size w)"

definition download_recording_file ::
  "config \<Rightarrow> env \<Rightarrow> string \<Rightarrow> string \<Rightarrow> string \<Rightarrow> int \<Rightarrow> string \<Rightarrow> world \<Rightarrow> bool outcome \<times> world" where
  "download_recording_file cfg ev download_url host_folder file_name file_size topic w =
     (let file_name = re_sub_unsafe file_name in
      if of_int file_size < MIN_FILE_SIZE cfg * 1024 * 1024
      then (Returns False, emit (Skipping file_name) w)
      else case resolve_destination cfg ev host_folder file_name topic w of
             (Inl e, w1) \<Rightarrow> (Raises e, w1)
           | (Inr (file_name, file_path), w1) \<Rightarrow>
               existing_or_download cfg ev download_url file_name file_path file_size w1)"

section \<open>download_recordings_from_meetings\<close>

text \<open>
  \<open>subscript k v\<close> is \<open>d[k]\<close> for the field \<open>v\<close> that holds the key \<open>k\<close> of \<open>d\<close>, and
  \<open>bind_exn\<close> runs the rest of a block after a step that may raise.
\<close>

definition subscript :: "string \<Rightarrow> 'a option \<Rightarrow> exn + 'a" where
  "subscript k v = (case v of None \<Rightarrow> Inl (KeyError k) | Some x \<Rightarrow> Inr x)"

definition bind_exn :: "exn + 'a \<Rightarrow> ('a \<Rightarrow> exn + 'b) \<Rightarrow> exn + 'b" where
  "bind_exn r f = (case r of Inl e \<Rightarrow> Inl e | Inr x \<Rightarrow> f x)"

text \<open>
  Line 228, the topic filter; \<open>utils.slugify\<close> is a parameter. The result is whether the
  \<open>continue\<close> is taken.
\<close>

definition topic_excluded :: "config \<Rightarrow> (string \<Rightarrow> string) \<Rightarrow> meeting \<Rightarrow> exn + bool" where
  "topic_excluded cfg slugify m =
     (if TOPICS cfg = [] then Inr False
      else bind_exn (subscript ''topic'' (m_topic m)) (\<lambda>topic.
             Inr (topic \<notin> set (TOPICS cfg) \<and> slugify topic \<notin> set (TOPICS cfg))))"

text \<open>
  Lines 235 to 257: the arguments \<open>(url, file_name, file_size, topic)\<close> with which a
  recording file is handed to \<open>download_recording_file\<close>, or \<open>None\<close> when one of the two
  \<open>continue\<close> statements skips it.
\<close>

definition file_name_of ::
  "config \<Rightarrow> (string \<Rightarrow> string) \<Rightarrow> meeting \<Rightarrow> recording_file \<Rightarrow> string \<Rightarrow> exn + (string \<times> string)" where
  "file_name_of cfg slugify m recording_file ext =
     (if USE_MEETING_TOPIC_NAME cfg then
        bind_exn (subscript ''topic'' (m_topic m)) (\<lambda>topic.
          Inr (topic @ ''.'' @ ext, topic))
      else
        bind_exn (subscript ''topic'' (m_topic m)) (\<lambda>t.
        let topic = slugify t in
        bind_exn (subscript ''recording_start'' (rf_recording_start recording_file)) (\<lambda>recording_start.
        let recording_name = slugify (topic @ ''__'' @ recording_start) in
        bind_exn (subscript ''id'' (rf_id recording_file)) (\<lambda>file_id.
        let file_name_suffix =
              (case rf_file_name recording_file of
                 Some n \<Rightarrow> fst (splitext n) @ ''__'' | None \<Rightarrow> []);
            recording_type_suffix =
              (case rf_recording_type recording_file of
                 Some t \<Rightarrow> t @ ''__'' | None \<Rightarrow> [])
        in Inr (slugify (recording_name @ ''__'' @ recording_type_suffix @ file_name_suffix
                           @ drop (length file_id - 8) file_id) @ ''.'' @ ext,
                topic)))))"

definition file_request ::
  "config \<Rightarrow> (string \<Rightarrow> string) \<Rightarrow> meeting \<Rightarrow> recording_file
     \<Rightarrow> exn + (string \<times> string \<times> int \<times> string) option" where
  "file_request cfg slugify m recording_file =
     (case rf_file_size recording_file of
        None \<Rightarrow> Inr None
      | Some size_field \<Rightarrow>
          bind_exn (if RECORDING_FILE_TYPES cfg = [] then Inr True
                    else bind_exn (subscript ''file_type'' (rf_file_type recording_file)) (\<lambda>file_type.
                           Inr (file_type \<in> set (RECORDING_FILE_TYPES cfg)))) (\<lambda>wanted.
          if \<not> wanted then Inr None
          else
            bind_exn (subscript ''download_url'' (rf_download_url recording_file)) (\<lambda>url.
            bind_exn (case rf_file_extension recording_file of
                        Some (c # cs) \<Rightarrow> Inr (c # cs)
                      | _ \<Rightarrow> bind_exn (subscript ''file_name'' (rf_file_name recording_file)) (\<lambda>n.
                               Inr (snd (splitext n)))) (\<lambda>e.
            let ext = lower e in
            bind_exn (file_name_of cfg slugify m recording_file ext) (\<lambda>(file_name, topic).
            let file_size = size_field in
            Inr (Some (url, file_name, file_size, topic)))))))"

text \<open>
  The three counters \<open>(file_count, total_size, skipped_count)\<close> and lines 259 to 263, which
  count the result of one call of \<open>download_recording_file\<close>.
\<close>

type_synonym counts = "int \<times> int \<times> int"

definition tally :: "bool \<Rightarrow> int \<Rightarrow> counts \<Rightarrow> counts" where
  "tally downloaded file_size c =
     (case c of (file_count, total_size, skipped_count) \<Rightarrow>
        if downloaded then (file_count + 1, total_size + file_size, skipped_count)
        else (file_count, total_size, skipped_count + 1))"

text \<open>The inner loop, lines 234 to 263, over the recording files of one meeting.\<close>

fun download_files ::
  "config \<Rightarrow> env \<Rightarrow> (string \<Rightarrow> string) \<Rightarrow> string \<Rightarrow> meeting \<Rightarrow> recording_file list
     \<Rightarrow> counts \<Rightarrow> world \<Rightarrow> counts outcome \<times> world" where
  "download_files cfg ev slugify host_folder m [] c w = (Returns c, w)"
| "download_files cfg ev slugify host_folder m (recording_file # rest) c w =
     (case file_request cfg slugify m recording_file of
        Inl e \<Rightarrow> (Raises e, w)
      | Inr None \<Rightarrow> download_files cfg ev slugify host_folder m rest c w
      | Inr (Some (url, file_name, file_size, topic)) \<Rightarrow>
          (case download_recording_file cfg ev url host_folder file_name file_size topic w of
             (Returns downloaded, w') \<Rightarrow>
               download_files cfg ev slugify host_folder m rest (tally downloaded file_size c) w'
           | (Raises e, w') \<Rightarrow> (Raises e, w')
           | (Blocks, w') \<Rightarrow> (Blocks, w')))"

text \<open>Lines 231 and 232: the files of a meeting, in the order the loop visits them.\<close>

definition files_of_meeting :: "config \<Rightarrow> meeting \<Rightarrow> recording_file list" where
  "files_of_meeting cfg m =
     (let recording_files = (case m_recording_files m of Some l \<Rightarrow> l | None \<Rightarrow> []);
          participant_audio_files =
            (if INCLUDE_PARTICIPANT_AUDIO cfg
             then (case m_participant_audio_files m of Some l \<Rightarrow> l | None \<Rightarrow> [])
             else [])
      in recording_files @ participant_audio_files)"

fun download_meetings ::
  "config \<Rightarrow> env \<Rightarrow> (string \<Rightarrow> string) \<Rightarrow> string \<Rightarrow> meeting list
     \<Rightarrow> counts \<Rightarrow> world \<Rightarrow> counts outcome \<times> world" where
  "download_meetings cfg ev slugify host_folder [] c w = (Returns c, w)"
| "download_meetings cfg ev slugify host_folder (m # rest) c w =
     (case topic_excluded cfg slugify m of
        Inl e \<Rightarrow> (Raises e, w)
      | Inr True \<Rightarrow> download_meetings cfg ev slugify host_folder rest c w
      | Inr False \<Rightarrow>
          (case download_files cfg ev slugify host_folder m (files_of_meeting cfg m) c w of
             (Returns c', w') \<Rightarrow> download_meetings cfg ev slugify host_folder rest c' w'
           | (Raises e, w') \<Rightarrow> (Raises e, w')
           | (Blocks, w') \<Rightarrow> (Blocks, w')))"

definition download_recordings_from_meetings ::
  "config \<Rightarrow> env \<Rightarrow> (string \<Rightarrow> string) \<Rightarrow> meeting list \<Rightarrow> string \<Rightarrow> world
     \<Rightarrow> counts outcome \<times> world" where
  "download_recordings_from_meetings cfg ev slugify meetings host_folder w =
     download_meetings cfg ev slugify host_folder meetings (0, 0, 0) w"

text \<open>
  Modelled from the spec: \<open>utils.slugify\<close> is not among the sources. The spec calls a slug
  a normalized, lowercase, separator-unified form of a free-text string, used for safe file
  names: the string is lower-cased, characters that are neither letters, digits,
  underscores nor separators are dropped, and every run of separators (spaces and hyphens)
  becomes one hyphen.
\<close>

definition is_word_char :: "char \<Rightarrow> bool" where
  "is_word_char c =
     (let n = (of_char c :: nat) in
      (48 \<le> n \<and> n \<le> 57) \<or> (65 \<le> n \<and> n \<le> 90) \<or> (97 \<le> n \<and> n \<le> 122) \<or> n = 95)"

definition is_separator :: "char \<Rightarrow> bool" where
  "is_separator c = (c = CHR '' '' \<or> c = CHR ''-'')"

function unify_separators :: "string \<Rightarrow> string" where
  "unify_separators [] = []"
| "unify_separators (c # cs) =
     (if is_separator c then CHR ''-'' # unify_separators (dropWhile is_separator cs)
      else c # unify_separators cs)"
  by pat_completeness auto
termination
  by (relation "measure length") (auto simp: length_dropWhile_le le_imp_less_Suc)

definition slugify_model :: "string \<Rightarrow> string" where
  "slugify_model s =
     unify_separators (filter (\<lambda>c. is_word_char c \<or> is_separator c) (lower s))"

section \<open>process_videos: the silence log\<close>

text \<open>
  \<open>split_on c s\<close> is \<open>s.split(c)\<close> for a one-character separator and \<open>strip\<close> is
  \<open>s.strip()\<close>, which removes the ASCII white space at both ends.
\<close>

fun split_on :: "char \<Rightarrow> string \<Rightarrow> string list" where
  "split_on c [] = [] # []"
| "split_on c (x # xs) =
     (if x = c then [] # split_on c xs
      else (case split_on c xs of
              piece # pieces \<Rightarrow> (x # piece) # pieces
            | [] \<Rightarrow> [x] # []))"

definition is_space :: "char \<Rightarrow> bool" where
  "is_space c = (c \<in> set [CHR '' '', CHR 0x09, CHR 0x0A, CHR 0x0B, CHR 0x0C, CHR 0x0D])"

definition strip :: "string \<Rightarrow> string" where
  "strip s = rev (dropWhile is_space (rev (dropWhile is_space s)))"

text \<open>\<open>xs[i]\<close> for a list and an index that is not negative.\<close>

definition item :: "'a list \<Rightarrow> nat \<Rightarrow> exn + 'a" where
  "item xs i = (if i < length xs then Inr (xs ! i) else Inl IndexError)"

text \<open>
  Lines 361 to 374 of \<open>process_videos\<close>: the loop over the lines of the log, with the
  variables \<open>start\<close>, \<open>end\<close> and \<open>cut_segments\<close> as arguments. A cut segment
  \<open>{"start": s, "end": e, "name": ""}\<close> is the triple of \<open>s\<close>, \<open>e\<close> and the empty string.
  Python's \<open>float\<close> is a parameter: \<open>to_float\<close> gives the value of a string or raises, and
  values are compared with the order of their type.
\<close>

fun cut_segments_loop ::
  "(string \<Rightarrow> exn + 'f::ord) \<Rightarrow> string list \<Rightarrow> 'f option \<Rightarrow> 'f option
     \<Rightarrow> ('f \<times> 'f \<times> string) list \<Rightarrow> exn + ('f \<times> 'f \<times> string) list" where
  "cut_segments_loop to_float [] start end' cut_segments = Inr cut_segments"
| "cut_segments_loop to_float (line # rest) start end' cut_segments =
     (if str_contains ''[silencedetect @'' line then
        if str_contains ''silence_start'' line then
          bind_exn (item (split_on CHR '':'' line) 1) (\<lambda>field.
          bind_exn (to_float (strip field)) (\<lambda>v.
            cut_segments_loop to_float rest (Some v) end' cut_segments))
        else if str_contains ''silence_end'' line then
          bind_exn (item (split_on CHR '':'' line) 1) (\<lambda>field.
          bind_exn (item (split_on CHR ''|'' field) 0) (\<lambda>field'.
          bind_exn (to_float (strip field')) (\<lambda>v.
            case start of
              Some s \<Rightarrow>
                if v > s
                then cut_segments_loop to_float rest None None (cut_segments @ [(s, v, [])])
                else cut_segments_loop to_float rest start (Some v) cut_segments
            | None \<Rightarrow> cut_segments_loop to_float rest start (Some v) cut_segments)))
        else cut_segments_loop to_float rest start end' cut_segments
      else cut_segments_loop to_float rest start end' cut_segments)"

definition cut_segments_of_log ::
  "(string \<Rightarrow> exn + 'f::ord) \<Rightarrow> string list \<Rightarrow> exn + ('f \<times> 'f \<times> string) list" where
  "cut_segments_of_log to_float log_lines = cut_segments_loop to_float log_lines None None []"

text \<open>
  A stand-in for \<open>float\<close> on plain decimal numerals (an optional sign, digits, an optional
  point and digits), with values in the rationals. It gives the value Python gives
  whenever the numeral is a binary fraction that a double holds exactly, as 1.0 and 4.5 are.
  It is not \<open>float\<close> elsewhere: \<open>float\<close> rounds to the nearest double, and also reads
  exponents, underscores between digits, \<open>inf\<close> and \<open>nan\<close>, and text with surrounding white
  space, on all of which \<open>decimal_float\<close> raises. It is used only to run the parser on a
  log whose numerals are 1.0 and 4.5; every general statement about the parser takes the
  conversion as a parameter.
\<close>

definition is_digit :: "char \<Rightarrow> bool" where
  "is_digit c = (48 \<le> (of_char c :: nat) \<and> (of_char c :: nat) \<le> 57)"

definition digits_value :: "string \<Rightarrow> nat" where
  "digits_value ds = foldl (\<lambda>a c. 10 * a + ((of_char c :: nat) - 48)) 0 ds"

definition unsigned_decimal :: "string \<Rightarrow> exn + rat" where
  "unsigned_decimal s =
     (case split_on CHR ''.'' s of
        [int_part] \<Rightarrow>
          if int_part \<noteq> [] \<and> list_all is_digit int_part then Inr (of_nat (digits_value int_part))
          else Inl ValueError
      | [int_part, frac_part] \<Rightarrow>
          if int_part @ frac_part \<noteq> [] \<and> list_all is_digit (int_part @ frac_part)
          then Inr (of_nat (digits_value int_part) + of_nat (digits_value frac_part) / 10 ^ length frac_part)
          else Inl ValueError
      | _ \<Rightarrow> Inl ValueError)"

definition decimal_float :: "string \<Rightarrow> exn + rat" where
  "decimal_float s =
     (case s of
        c # cs \<Rightarrow>
          if c = CHR ''-'' then bind_exn (unsigned_decimal cs) (\<lambda>v. Inr (- v))
          else if c = CHR ''+'' then unsigned_decimal cs
          else unsigned_decimal s
      | [] \<Rightarrow> Inl ValueError)"

section \<open>Example values\<close>

text \<open>
  A configuration, an environment and an empty world for the concrete runs below: integer
  settings as in a plain configuration file, a server that delivers two million bytes for
  every transfer, and a disk with room.
\<close>

definition example_config :: config where
  "example_config =
     \<lparr>USE_EXACT_DATE = False, START_YEAR = 2024, START_MONTH = 1, START_DAY = 5,
      END_YEAR = 2024, END_MONTH = 1, END_DAY = 0, CHECK_FRIDAY_WEEKENDS = True,
      TOPICS = [], RECORDING_FILE_TYPES = [], INCLUDE_PARTICIPANT_AUDIO = False,
      USE_MEETING_TOPIC_NAME = True, MIN_FILE_SIZE = 1, FILE_SIZE_MISMATCH_TOLERANCE = 10,
      MINIMUM_FREE_DISK = 0, GROUP_BY_TOPIC = False, GROUP_BY_RECORDING = False\<rparr>"

definition example_env :: env where
  "example_env =
     \<lparr>net = (\<lambda>k url. Inr 2000000), free_disk = (\<lambda>k. 10000000), new_dir_size = 4096\<rparr>"

definition empty_world :: world where
  "empty_world = \<lparr>disk = [], events = [], transfers = 0, polls = 0\<rparr>"

section \<open>Windows of a date range\<close>

text \<open>
  \<open>windows_partition a b ws\<close>: the windows \<open>ws\<close>, in order, start at \<open>a\<close>, end at \<open>b\<close>,
  each begins the day after the one before it ends, and each holds at least one and at
  most thirty days.
\<close>

fun windows_partition :: "int \<Rightarrow> int \<Rightarrow> (int \<times> int) list \<Rightarrow> bool" where
  "windows_partition a b [] = (a = b + 1)"
| "windows_partition a b ((s, e) # ws) =
     (s = a \<and> s \<le> e \<and> e \<le> b \<and> e - s + 1 \<le> 30 \<and> windows_partition (e + 1) b ws)"

section \<open>The outcomes of fetching meetings\<close>

text \<open>
  What the fetcher makes of one answer of \<open>client.get\<close>, in the order in which the code
  tests the text of the exception: the meeting, a recording still being processed (the text
  contains 3301), a recording not found (the text contains 404 and not 3301), or an error
  that ends the run.
\<close>

datatype fetch = Fetched meeting | Still_processing | Not_found | Fatal string

definition classify :: "string + meeting \<Rightarrow> fetch" where
  "classify r =
     (case r of
        Inr m \<Rightarrow> Fetched m
      | Inl e \<Rightarrow> if str_contains ''3301'' e then Still_processing
                 else if str_contains ''404'' e then Not_found
                 else Fatal e)"

text \<open>
  \<open>fetches\<close> pairs the topic of every meeting reference with the outcome of its request,
  the \<open>k\<close>-th reference being the \<open>k\<close>-th request. Of such a list, \<open>first_fatal\<close> is the text
  of the first error that ends the run, \<open>fetched_meetings\<close> are the meetings fetched and
  \<open>skipped_lines\<close> the lines for the skipped-meetings report, both in order.
\<close>

definition fetches ::
  "client_get \<Rightarrow> (string \<Rightarrow> string) \<Rightarrow> nat \<Rightarrow> (string \<times> string) list \<Rightarrow> (string \<times> fetch) list" where
  "fetches client_get double_encode k meeting_data =
     map (\<lambda>(i, (meeting_uuid, meeting_topic)).
            (meeting_topic, classify (client_get i (meeting_recordings_url double_encode meeting_uuid))))
       (enumerate k meeting_data)"

definition is_fatal :: "string \<times> fetch \<Rightarrow> bool" where
  "is_fatal x = (case snd x of Fatal e \<Rightarrow> True | _ \<Rightarrow> False)"

fun first_fatal :: "(string \<times> fetch) list \<Rightarrow> string option" where
  "first_fatal [] = None"
| "first_fatal ((t, Fatal e) # outs) = Some e"
| "first_fatal ((t, f) # outs) = first_fatal outs"

fun fetched_meetings :: "(string \<times> fetch) list \<Rightarrow> meeting list" where
  "fetched_meetings [] = []"
| "fetched_meetings ((t, Fetched m) # outs) = m # fetched_meetings outs"
| "fetched_meetings ((t, f) # outs) = fetched_meetings outs"

fun skipped_lines :: "(string \<times> fetch) list \<Rightarrow> string list" where
  "skipped_lines [] = []"
| "skipped_lines ((t, Still_processing) # outs) =
     (''Meeting: '' @ [CHR 0x27] @ t @ [CHR 0x27] @ '' (Still Processing)'') # skipped_lines outs"
| "skipped_lines ((t, Not_found) # outs) =
     (''Meeting: '' @ [CHR 0x27] @ t @ [CHR 0x27] @ '' (Not Found / 404)'') # skipped_lines outs"
| "skipped_lines ((t, f) # outs) = skipped_lines outs"

definition example_meeting :: meeting where
  "example_meeting =
     \<lparr>m_topic = Some ''Standup'', m_recording_files = None, m_participant_audio_files = None\<rparr>"

text \<open>
  A server for five requests: the first fails with a text that holds both 404 and 3301, the
  second with a 404, the third answers, and the others fail with a 500.
\<close>

definition example_client_get :: client_get where
  "example_client_get k url =
     (if k = 0 then Inl ''404 Client Error: Not Found (code 3301)''
      else if k = 1 then Inl ''404 Client Error: Not Found''
      else if k = 2 then Inr example_meeting
      else Inl ''500 Server Error'')"

section \<open>Lines of a silence log\<close>

text \<open>
  The value a line of the log gives to \<open>start\<close>, and the value it gives to \<open>end\<close>, if the
  loop of \<open>process_videos\<close> takes it for a \<open>silence_start\<close> or a \<open>silence_end\<close> line and
  reads it without raising.
\<close>

definition start_value :: "(string \<Rightarrow> exn + 'f) \<Rightarrow> string \<Rightarrow> 'f option" where
  "start_value to_float line =
     (if str_contains ''[silencedetect @'' line \<and> str_contains ''silence_start'' line
      then (case bind_exn (item (split_on CHR '':'' line) 1) (\<lambda>field. to_float (strip field)) of
              Inr v \<Rightarrow> Some v | Inl e \<Rightarrow> None)
      else None)"

definition end_value :: "(string \<Rightarrow> exn + 'f) \<Rightarrow> string \<Rightarrow> 'f option" where
  "end_value to_float line =
     (if str_contains ''[silencedetect @'' line \<and> \<not> str_contains ''silence_start'' line
         \<and> str_contains ''silence_end'' line
      then (case bind_exn (item (split_on CHR '':'' line) 1) (\<lambda>field.
                 bind_exn (item (split_on CHR ''|'' field) 0) (\<lambda>field'. to_float (strip field'))) of
              Inr v \<Rightarrow> Some v | Inl e \<Rightarrow> None)
      else None)"

text \<open>
  A log of two lines, as the silence detection of ffmpeg writes them: each line starts
  with the tag of the filter and ends with a line feed.
\<close>

definition tagged_log :: "string list" where
  "tagged_log =
     [''[silencedetect @ 0x55d0c8] silence_start: 1.0'' @ [CHR 0x0A],
      ''[silencedetect @ 0x55d0c8] silence_end: 4.5 | silence_duration: 3.5'' @ [CHR 0x0A]]"

definition is_upper :: "char \<Rightarrow> bool" where
  "is_upper c = (65 \<le> (of_char c :: nat) \<and> (of_char c :: nat) \<le> 90)"

section \<open>Notions for the downloader\<close>

text \<open>
  \<open>folder_of\<close> is the folder \<open>create_path\<close> computes. Two worlds have the \<open>same_files\<close> when
  they hold the same regular files with the same sizes (directories may differ). Of the
  events, \<open>is_skip\<close> holds for the two messages with which \<open>download_recording_file\<close>
  returns \<open>False\<close>, and \<open>is_renamed\<close> for the renaming that ends a download.
\<close>

definition folder_of :: "config \<Rightarrow> string \<Rightarrow> string \<Rightarrow> string \<Rightarrow> string" where
  "folder_of cfg host_folder topic recording_name =
     (let folder_path = host_folder;
          folder_path = (if GROUP_BY_TOPIC cfg then join folder_path topic else folder_path);
          folder_path = (if GROUP_BY_RECORDING cfg then join folder_path recording_name else folder_path)
      in folder_path)"

definition same_files :: "world \<Rightarrow> world \<Rightarrow> bool" where
  "same_files w w' = (\<forall>q n. (map_of (disk w') q = Some (File n)) = (map_of (disk w) q = Some (File n)))"

definition is_skip :: "event \<Rightarrow> bool" where
  "is_skip ev = (case ev of Skipping n \<Rightarrow> True | Skipping_existing n \<Rightarrow> True | _ \<Rightarrow> False)"

definition is_renamed :: "event \<Rightarrow> bool" where
  "is_renamed ev = (case ev of Renamed a b \<Rightarrow> True | _ \<Rightarrow> False)"

text \<open>
  More example values: the configuration with \<open>GROUP_BY_TOPIC\<close> set; a world in which the
  topic folder holds \<open>Standup.mp4\<close> and a file \<open>Standup_1.mp4\<close> of a given size; recording
  files in topic-name mode, all called \<open>Standup.mp4\<close>; a meeting with three of them; a
  server that delivers seven million bytes for the third; and a meeting whose four files
  are a small one, one without \<open>file_size\<close>, a small one of another type, and a full one.
\<close>

definition grouped_config :: config where
  "grouped_config = example_config\<lparr>GROUP_BY_TOPIC := True\<rparr>"

definition grouped_world :: "int \<Rightarrow> world" where
  "grouped_world n =
     empty_world\<lparr>disk := [(''out/Standup/Standup.mp4'', File 2000000),
                          (''out/Standup/Standup_1.mp4'', File n)]\<rparr>"

definition standup_file :: "string \<Rightarrow> int \<Rightarrow> recording_file" where
  "standup_file url n =
     \<lparr>rf_id = Some ''abcdefgh12345678'', rf_file_type = Some ''MP4'', rf_file_extension = Some ''MP4'',
      rf_file_name = None, rf_file_size = Some n, rf_download_url = Some url,
      rf_recording_start = Some ''2024-01-05T10:00:00Z'', rf_recording_type = None\<rparr>"

definition standup_meeting :: meeting where
  "standup_meeting =
     \<lparr>m_topic = Some ''Standup'',
      m_recording_files = Some [standup_file ''https://zoom.example/rec/1'' 2000000,
                                standup_file ''https://zoom.example/rec/2'' 2000000,
                                standup_file ''https://zoom.example/rec/3'' 7000000],
      m_participant_audio_files = None\<rparr>"

definition sizes_env :: env where
  "sizes_env =
     \<lparr>net = (\<lambda>k url. Inr (if url = ''https://zoom.example/rec/3'' then 7000000 else 2000000)),
      free_disk = (\<lambda>k. 100000000), new_dir_size = 4096\<rparr>"

definition mixed_meeting :: meeting where
  "mixed_meeting =
     \<lparr>m_topic = Some ''Standup'',
      m_recording_files = Some [standup_file ''https://zoom.example/rec/1'' 5,
                                (standup_file ''https://zoom.example/rec/2'' 2000000)\<lparr>rf_file_size := None\<rparr>,
                                (standup_file ''https://zoom.example/rec/3'' 5)\<lparr>rf_file_type := Some ''M4A''\<rparr>,
                                standup_file ''https://zoom.example/rec/4'' 2000000],
      m_participant_audio_files = None\<rparr>"


section \<open>Properties of the date range\<close>

text \<open>
  C7, as the code has it. When \<open>CHECK_FRIDAY_WEEKENDS\<close> is set and the start date falls on
  a Friday, two days are added to the end date (the sum has to be a date that
  \<open>datetime\<close> can hold, that is, the end date is 9999-12-29 at the latest); for every
  start date that is not a Friday, and whenever the flag is off, the end date is unchanged.
\<close>

theorem friday_weekend_adds_two_days:
  "(CHECK_FRIDAY_WEEKENDS cfg \<and> weekday from_date = 4 \<and> 0 < to_date \<and> to_date + 2 \<le> max_ordinal
      \<longrightarrow> friday_weekend cfg from_date to_date = Inr (to_date + 2)) \<and>
   (\<not> (CHECK_FRIDAY_WEEKENDS cfg \<and> weekday from_date = 4)
      \<longrightarrow> friday_weekend cfg from_date to_date = Inr to_date)"
  by (simp add: friday_weekend_def add_days_def)

text \<open>
  The theorem at 2024-01-05, a Friday, with the end date 2024-01-31, and at 2024-01-06, a
  Saturday.
\<close>

theorem friday_weekend_adds_two_days_witness:
  "CHECK_FRIDAY_WEEKENDS example_config \<and> weekday (ymd2ord 2024 1 5) = 4 \<and>
   0 < ymd2ord 2024 1 31 \<and> ymd2ord 2024 1 31 + 2 \<le> max_ordinal \<and>
   friday_weekend example_config (ymd2ord 2024 1 5) (ymd2ord 2024 1 31)
     = Inr (ymd2ord 2024 1 31 + 2) \<and>
   \<not> (CHECK_FRIDAY_WEEKENDS example_config \<and> weekday (ymd2ord 2024 1 6) = 4) \<and>
   friday_weekend example_config (ymd2ord 2024 1 6) (ymd2ord 2024 1 31)
     = Inr (ymd2ord 2024 1 31)"
proof -
  have h: "CHECK_FRIDAY_WEEKENDS example_config" "weekday (ymd2ord 2024 1 5) = 4"
    "0 < ymd2ord 2024 1 31" "ymd2ord 2024 1 31 + 2 \<le> max_ordinal"
    "weekday (ymd2ord 2024 1 6) \<noteq> 4"
    by code_simp+
  show ?thesis
    using h friday_weekend_adds_two_days [of example_config "ymd2ord 2024 1 5" "ymd2ord 2024 1 31"]
      friday_weekend_adds_two_days [of example_config "ymd2ord 2024 1 6" "ymd2ord 2024 1 31"]
    by simp
qed

text \<open>
  C7 as the specification words it, with one day added, fails: from 2024-01-05, a Friday,
  with the flag set, the end date 2024-01-31 becomes 2024-02-02, not 2024-02-01.
\<close>

theorem friday_weekend_one_day_counterexample:
  "CHECK_FRIDAY_WEEKENDS example_config \<and> weekday (ymd2ord 2024 1 5) = 4 \<and>
   friday_weekend example_config (ymd2ord 2024 1 5) (ymd2ord 2024 1 31) = Inr (ymd2ord 2024 2 2) \<and>
   friday_weekend example_config (ymd2ord 2024 1 5) (ymd2ord 2024 1 31)
     \<noteq> Inr (ymd2ord 2024 1 31 + 1) \<and>
   main_dates example_config (0, 0, 0) = Inr (ymd2ord 2024 1 5, ymd2ord 2024 2 2)"
  by code_simp

text \<open>Facts about \<open>windows_partition\<close>.\<close>

lemma windows_partition_union:
  "windows_partition a b ws \<Longrightarrow> (\<Union>(s, e) \<in> set ws. {s..e}) = {a..b}"
proof (induction ws arbitrary: a)
  case Nil
  then show ?case by simp
next
  case (Cons w ws)
  obtain s e where w: "w = (s, e)" by (cases w)
  from Cons.prems w have h: "s = a" "a \<le> e" "e \<le> b" "windows_partition (e + 1) b ws"
    by simp_all
  have "(\<Union>(s, e) \<in> set ws. {s..e}) = {e + 1..b}" using Cons.IH [OF h(4)] .
  then show ?case using h w by auto
qed

lemma windows_partition_bounds:
  "windows_partition a b ws \<Longrightarrow> (s, e) \<in> set ws \<Longrightarrow> a \<le> s \<and> s \<le> e \<and> e \<le> b"
  by (induction ws arbitrary: a) force+

lemma windows_partition_disjoint:
  "windows_partition a b ws \<Longrightarrow> i < j \<Longrightarrow> j < length ws \<Longrightarrow> snd (ws ! i) < fst (ws ! j)"
proof (induction ws arbitrary: a i j)
  case Nil
  then show ?case by simp
next
  case (Cons w ws)
  obtain s e where w: "w = (s, e)" by (cases w)
  from Cons.prems w have h: "windows_partition (e + 1) b ws" by simp
  obtain j' where j: "j = Suc j'" using Cons.prems(2) by (cases j) auto
  show ?case
  proof (cases i)
    case 0
    have "ws ! j' \<in> set ws" using Cons.prems(3) j by simp
    then have "(fst (ws ! j'), snd (ws ! j')) \<in> set ws" by simp
    from windows_partition_bounds [OF h this] show ?thesis using 0 j w by simp
  next
    case (Suc i')
    then show ?thesis using Cons.IH [OF h, of i' j'] Cons.prems j by simp
  qed
qed

lemma windows_partition_length:
  "windows_partition a b ws \<Longrightarrow> b - a + 1 \<le> 30 * int (length ws)"
  by (induction ws arbitrary: a) force+

text \<open>The loop of \<open>get_meeting_uuids\<close>: what it has queried when it returns, and when it returns.\<close>

lemma get_meeting_uuids_loop_windows:
  "local_start_date \<le> end_date + 1 \<Longrightarrow>
   get_meeting_uuids_loop paginate user_email end_date local_start_date acc queried = (Inr ms, qs) \<Longrightarrow>
   \<exists>ws. qs = queried @ ws \<and> windows_partition local_start_date end_date ws"
proof (induction paginate user_email end_date local_start_date acc queried
       rule: get_meeting_uuids_loop.induct)
  case (1 paginate user_email end_date local_start_date meeting_data_list queried)
  show ?case
  proof (cases "local_start_date \<le> end_date")
    case False
    with "1.prems" show ?thesis by (subst (asm) get_meeting_uuids_loop.simps) simp
  next
    case True
    from "1.prems"(2) True obtain pages where
      a29: "add_days local_start_date 29 = Inr (local_start_date + 29)" and
      pg: "paginate (length queried) user_email local_start_date
             (min (local_start_date + 29) end_date) = Inr pages" and
      a1: "add_days (min (local_start_date + 29) end_date) 1
             = Inr (min (local_start_date + 29) end_date + 1)"
      by (subst (asm) get_meeting_uuids_loop.simps)
         (auto simp: add_days_def Let_def split: if_splits sum.splits)
    let ?e = "min (local_start_date + 29) end_date"
    have rec: "get_meeting_uuids_loop paginate user_email end_date (?e + 1)
                 (meeting_data_list @ rev (concat (map meeting_data_of_page pages)))
                 (queried @ [(local_start_date, ?e)]) = (Inr ms, qs)"
      using "1.prems"(2) True a29 pg a1
      by (subst (asm) get_meeting_uuids_loop.simps) (simp add: Let_def)
    have "\<exists>ws. qs = (queried @ [(local_start_date, ?e)]) @ ws
             \<and> windows_partition (?e + 1) end_date ws"
      using "1.IH" [OF True a29 refl pg refl a1 _ rec] by simp
    then obtain ws where "qs = queried @ (local_start_date, ?e) # ws"
      "windows_partition (?e + 1) end_date ws" by auto
    then show ?thesis using True by (intro exI [of _ "(local_start_date, ?e) # ws"]) auto
  qed
qed

lemma get_meeting_uuids_loop_returns:
  "0 < local_start_date \<Longrightarrow> end_date + 29 \<le> max_ordinal \<Longrightarrow>
   \<forall>k a b. \<exists>pages. paginate k user_email a b = Inr pages \<Longrightarrow>
   \<exists>ms qs. get_meeting_uuids_loop paginate user_email end_date local_start_date acc queried
             = (Inr ms, qs)"
proof (induction paginate user_email end_date local_start_date acc queried
       rule: get_meeting_uuids_loop.induct)
  case (1 paginate user_email end_date local_start_date meeting_data_list queried)
  show ?case
  proof (cases "local_start_date \<le> end_date")
    case False
    then show ?thesis by (subst get_meeting_uuids_loop.simps) simp
  next
    case True
    let ?e = "min (local_start_date + 29) end_date"
    have a29: "add_days local_start_date 29 = Inr (local_start_date + 29)"
      using True "1.prems" by (simp add: add_days_def)
    obtain pages where pg: "paginate (length queried) user_email local_start_date ?e = Inr pages"
      using "1.prems"(3) by blast
    have a1: "add_days ?e 1 = Inr (?e + 1)"
      using True "1.prems" by (simp add: add_days_def)
    have "\<exists>ms qs. get_meeting_uuids_loop paginate user_email end_date (?e + 1)
                 (meeting_data_list @ rev (concat (map meeting_data_of_page pages)))
                 (queried @ [(local_start_date, ?e)]) = (Inr ms, qs)"
      using "1.IH" [OF True a29 refl pg refl a1] "1.prems" True by simp
    then show ?thesis using True a29 pg a1
      by (subst get_meeting_uuids_loop.simps) (simp add: Let_def)
  qed
qed

text \<open>
  C2, as the code has it. For a date range with \<open>start_date \<le> end_date\<close>: the enumeration
  returns whenever every listing is answered and the end date is at least 29 days before
  the last date \<open>datetime\<close> holds; and whenever it returns, the windows it has queried are
  consecutive, each of at most thirty days counted inclusively, their union is exactly the
  range, no two of them overlap, and a range of more than thirty days has more than one
  window.
\<close>

theorem get_meeting_uuids_windows:
  assumes "start_date \<le> end_date"
  shows "(0 < start_date \<and> end_date + 29 \<le> max_ordinal \<and>
            (\<forall>k a b. \<exists>pages. paginate k user_email a b = Inr pages)
          \<longrightarrow> (\<exists>ms qs. get_meeting_uuids paginate user_email start_date end_date = (Inr ms, qs))) \<and>
         (\<forall>ms qs. get_meeting_uuids paginate user_email start_date end_date = (Inr ms, qs)
          \<longrightarrow> windows_partition start_date end_date qs \<and>
              (\<Union>(s, e) \<in> set qs. {s..e}) = {start_date..end_date} \<and>
              (\<forall>i j. i < j \<and> j < length qs \<longrightarrow> snd (qs ! i) < fst (qs ! j)) \<and>
              (30 < end_date - start_date + 1 \<longrightarrow> 1 < length qs))"
proof (intro conjI impI allI)
  assume "0 < start_date \<and> end_date + 29 \<le> max_ordinal \<and>
          (\<forall>k a b. \<exists>pages. paginate k user_email a b = Inr pages)"
  then show "\<exists>ms qs. get_meeting_uuids paginate user_email start_date end_date = (Inr ms, qs)"
    unfolding get_meeting_uuids_def by (intro get_meeting_uuids_loop_returns) simp_all
next
  fix ms qs
  assume r: "get_meeting_uuids paginate user_email start_date end_date = (Inr ms, qs)"
  have wp: "windows_partition start_date end_date qs"
    using get_meeting_uuids_loop_windows [of start_date end_date paginate user_email "[]" "[]" ms qs]
      assms r by (simp add: get_meeting_uuids_def)
  show "windows_partition start_date end_date qs" by (rule wp)
  show "(\<Union>(s, e) \<in> set qs. {s..e}) = {start_date..end_date}"
    by (rule windows_partition_union [OF wp])
  show "snd (qs ! i) < fst (qs ! j)" if "i < j \<and> j < length qs" for i j
    using windows_partition_disjoint [OF wp] that by blast
  show "1 < length qs" if "30 < end_date - start_date + 1"
    using windows_partition_length [OF wp] that by simp
qed

text \<open>
  The theorem for the range from 2024-01-01 to 2024-03-01, 61 days, with a server that
  lists no meetings: three windows.
\<close>

theorem get_meeting_uuids_windows_witness:
  "ymd2ord 2024 1 1 \<le> ymd2ord 2024 3 1 \<and>
   0 < ymd2ord 2024 1 1 \<and> ymd2ord 2024 3 1 + 29 \<le> max_ordinal \<and>
   get_meeting_uuids (\<lambda>k e a b. Inr []) ''user@example.com'' (ymd2ord 2024 1 1) (ymd2ord 2024 3 1)
     = (Inr [], [(ymd2ord 2024 1 1, ymd2ord 2024 1 30), (ymd2ord 2024 1 31, ymd2ord 2024 2 29),
                 (ymd2ord 2024 3 1, ymd2ord 2024 3 1)]) \<and>
   windows_partition (ymd2ord 2024 1 1) (ymd2ord 2024 3 1)
     [(ymd2ord 2024 1 1, ymd2ord 2024 1 30), (ymd2ord 2024 1 31, ymd2ord 2024 2 29),
      (ymd2ord 2024 3 1, ymd2ord 2024 3 1)] \<and>
   30 < ymd2ord 2024 3 1 - ymd2ord 2024 1 1 + 1"
proof -
  have h: "ymd2ord 2024 1 1 \<le> ymd2ord 2024 3 1" "0 < ymd2ord 2024 1 1"
    "ymd2ord 2024 3 1 + 29 \<le> max_ordinal" "30 < ymd2ord 2024 3 1 - ymd2ord 2024 1 1 + 1"
    by code_simp+
  have r: "get_meeting_uuids (\<lambda>k e a b. Inr []) ''user@example.com''
             (ymd2ord 2024 1 1) (ymd2ord 2024 3 1)
     = (Inr [], [(ymd2ord 2024 1 1, ymd2ord 2024 1 30), (ymd2ord 2024 1 31, ymd2ord 2024 2 29),
                 (ymd2ord 2024 3 1, ymd2ord 2024 3 1)])"
    by code_simp
  show ?thesis
    using h r get_meeting_uuids_windows [OF h(1), of "\<lambda>k e a b. Inr []" "''user@example.com''"]
    by simp
qed

text \<open>
  C2 as the specification words it, for every date range, fails at the end of the
  calendar: for the one-day range 9999-12-31 the sum \<open>local_start_date + delta\<close> is not a
  date, the call raises \<open>OverflowError\<close> and no window has been queried.
\<close>

theorem get_meeting_uuids_overflow_counterexample:
  "ymd2ord 9999 12 31 \<le> ymd2ord 9999 12 31 \<and>
   datetime_new 9999 12 31 = Inr (ymd2ord 9999 12 31) \<and>
   get_meeting_uuids (\<lambda>k e a b. Inr []) ''user@example.com'' (ymd2ord 9999 12 31) (ymd2ord 9999 12 31)
     = (Inl OverflowError, []) \<and>
   \<not> windows_partition (ymd2ord 9999 12 31) (ymd2ord 9999 12 31) []"
  by code_simp

section \<open>Properties of the meeting fetcher\<close>

lemma is_fatal_simps [simp]:
  "is_fatal (t, Fatal e)" "\<not> is_fatal (t, Fetched m)" "\<not> is_fatal (t, Still_processing)"
  "\<not> is_fatal (t, Not_found)"
  by (simp_all add: is_fatal_def)

lemma fetches_simps [simp]:
  "fetches client_get double_encode k [] = []"
  "fetches client_get double_encode k ((meeting_uuid, meeting_topic) # rest)
     = (meeting_topic, classify (client_get k (meeting_recordings_url double_encode meeting_uuid)))
       # fetches client_get double_encode (Suc k) rest"
  by (simp_all add: fetches_def)

lemma get_meetings_loop_outcomes:
  "get_meetings_loop client_get double_encode k meeting_data meetings SKIPPED =
     (let outs = fetches client_get double_encode k meeting_data
      in (case first_fatal outs of
            None \<Rightarrow> Inr (meetings @ fetched_meetings outs)
          | Some e \<Rightarrow> Inl (ApiError e),
          SKIPPED @ skipped_lines (takeWhile (\<lambda>x. \<not> is_fatal x) outs)))"
proof (induction meeting_data arbitrary: k meetings SKIPPED)
  case Nil
  then show ?case by simp
next
  case (Cons r rest)
  obtain meeting_uuid meeting_topic where r: "r = (meeting_uuid, meeting_topic)" by (cases r)
  let ?resp = "client_get k (meeting_recordings_url double_encode meeting_uuid)"
  show ?case
  proof (cases "classify ?resp")
    case (Fetched m)
    then have "?resp = Inr m" by (auto simp: classify_def split: sum.splits if_splits)
    then show ?thesis using Fetched by (simp add: r Cons.IH Let_def split: option.splits)
  next
    case Still_processing
    then obtain e where "?resp = Inl e" "str_contains ''3301'' e"
      by (auto simp: classify_def split: sum.splits if_splits)
    then show ?thesis using Still_processing by (simp add: r Cons.IH Let_def split: option.splits)
  next
    case Not_found
    then obtain e where "?resp = Inl e" "\<not> str_contains ''3301'' e" "str_contains ''404'' e"
      by (auto simp: classify_def split: sum.splits if_splits)
    then show ?thesis using Not_found by (simp add: r Cons.IH Let_def split: option.splits)
  next
    case (Fatal e)
    then have "?resp = Inl e" "\<not> str_contains ''3301'' e" "\<not> str_contains ''404'' e"
      by (auto simp: classify_def split: sum.splits if_splits)
    then show ?thesis using Fatal by (simp add: r Let_def)
  qed
qed

text \<open>
  C4, as the code has it. Every meeting reference is requested in turn and its answer has
  one of four outcomes: the record is appended to the output; an error whose text contains
  3301 appends \<open>Meeting: 'topic' (Still Processing)\<close> to the skipped-meetings report and
  the enumeration goes on; an error whose text contains 404 and does not contain 3301
  appends \<open>Meeting: 'topic' (Not Found / 404)\<close> and the enumeration goes on; any other error
  is raised again and ends the call, the report keeping the lines added before it. So the
  call raises the first such error if there is one, and otherwise returns all the records
  fetched, in order; the report gains the lines of the references before that error.
\<close>

theorem get_meetings_outcomes:
  "get_meetings client_get double_encode meeting_data SKIPPED =
     (let outs = fetches client_get double_encode 0 meeting_data
      in (case first_fatal outs of
            None \<Rightarrow> Inr (fetched_meetings outs)
          | Some e \<Rightarrow> Inl (ApiError e),
          SKIPPED @ skipped_lines (takeWhile (\<lambda>x. \<not> is_fatal x) outs)))"
  by (cases meeting_data)
     (simp_all add: get_meetings_def get_meetings_loop_outcomes Let_def split: option.splits)

text \<open>
  The theorem on four references: two are skipped, one is fetched, and the error of the
  fourth ends the call.
\<close>

theorem get_meetings_outcomes_witness:
  "get_meetings example_client_get (\<lambda>u. u)
     [(''u0'', ''Alpha''), (''u1'', ''Beta''), (''u2'', ''Gamma''), (''u3'', ''Delta'')] []
   = (Inl (ApiError ''500 Server Error''),
      [''Meeting: '' @ [CHR 0x27] @ ''Alpha'' @ [CHR 0x27] @ '' (Still Processing)'',
       ''Meeting: '' @ [CHR 0x27] @ ''Beta'' @ [CHR 0x27] @ '' (Not Found / 404)'']) \<and>
   get_meetings example_client_get (\<lambda>u. u)
     [(''u0'', ''Alpha''), (''u1'', ''Beta''), (''u2'', ''Gamma'')] []
   = (Inr [example_meeting],
      [''Meeting: '' @ [CHR 0x27] @ ''Alpha'' @ [CHR 0x27] @ '' (Still Processing)'',
       ''Meeting: '' @ [CHR 0x27] @ ''Beta'' @ [CHR 0x27] @ '' (Not Found / 404)''])"
proof -
  have "fetches example_client_get (\<lambda>u. u) 0
          [(''u0'', ''Alpha''), (''u1'', ''Beta''), (''u2'', ''Gamma''), (''u3'', ''Delta'')]
        = [(''Alpha'', Still_processing), (''Beta'', Not_found), (''Gamma'', Fetched example_meeting),
           (''Delta'', Fatal ''500 Server Error'')]"
       "fetches example_client_get (\<lambda>u. u) 0
          [(''u0'', ''Alpha''), (''u1'', ''Beta''), (''u2'', ''Gamma'')]
        = [(''Alpha'', Still_processing), (''Beta'', Not_found), (''Gamma'', Fetched example_meeting)]"
    by (simp_all add: example_client_get_def classify_def)
  then show ?thesis
    using get_meetings_outcomes [of example_client_get "\<lambda>u. u"
            "[(''u0'', ''Alpha''), (''u1'', ''Beta''), (''u2'', ''Gamma''), (''u3'', ''Delta'')]" "[]"]
          get_meetings_outcomes [of example_client_get "\<lambda>u. u"
            "[(''u0'', ''Alpha''), (''u1'', ''Beta''), (''u2'', ''Gamma'')]" "[]"]
    by (simp add: Let_def del: fetches_simps)
qed

text \<open>
  C4 as the specification words it fails for an error whose text contains both 404 and
  3301: the meeting is reported as still processing, not as not found.
\<close>

theorem get_meetings_not_found_counterexample:
  "str_contains ''404'' ''404 Client Error: Not Found (code 3301)'' \<and>
   example_client_get 0 (meeting_recordings_url (\<lambda>u. u) ''u0'')
     = Inl ''404 Client Error: Not Found (code 3301)'' \<and>
   get_meetings example_client_get (\<lambda>u. u) [(''u0'', ''Alpha'')] []
     = (Inr [], [''Meeting: '' @ [CHR 0x27] @ ''Alpha'' @ [CHR 0x27] @ '' (Still Processing)'']) \<and>
   get_meetings example_client_get (\<lambda>u. u) [(''u0'', ''Alpha'')] []
     \<noteq> (Inr [], [''Meeting: '' @ [CHR 0x27] @ ''Alpha'' @ [CHR 0x27] @ '' (Not Found / 404)''])"
  by code_simp

section \<open>Properties of the topic filter\<close>

text \<open>
  C6, as the code has it. A meeting with a topic passes the topic filter exactly when the
  configured list is empty, or contains the literal topic, or contains the slug of the
  topic; the loop over the meetings steps over a meeting that does not pass and works
  through the files of one that does. So with the filter set to the slug \<open>weekly-sync\<close>, a
  meeting with the topic \<open>Weekly Sync\<close> is included and one with the topic \<open>Other\<close> is
  excluded (with the slug modelled from the specification).
\<close>

theorem topic_filter_rule:
  "(m_topic m = Some topic \<longrightarrow>
      topic_excluded cfg slugify m
        = Inr (\<not> (TOPICS cfg = [] \<or> topic \<in> set (TOPICS cfg) \<or> slugify topic \<in> set (TOPICS cfg)))) \<and>
   (topic_excluded cfg slugify m = Inr True \<longrightarrow>
      download_meetings cfg ev slugify host_folder (m # rest) c w
        = download_meetings cfg ev slugify host_folder rest c w) \<and>
   (topic_excluded cfg slugify m = Inr False \<longrightarrow>
      download_meetings cfg ev slugify host_folder (m # rest) c w
        = (case download_files cfg ev slugify host_folder m (files_of_meeting cfg m) c w of
             (Returns c', w') \<Rightarrow> download_meetings cfg ev slugify host_folder rest c' w'
           | (Raises e, w') \<Rightarrow> (Raises e, w')
           | (Blocks, w') \<Rightarrow> (Blocks, w'))) \<and>
   topic_excluded (example_config\<lparr>TOPICS := [''weekly-sync'']\<rparr>) slugify_model
     (example_meeting\<lparr>m_topic := Some ''Weekly Sync''\<rparr>) = Inr False \<and>
   topic_excluded (example_config\<lparr>TOPICS := [''weekly-sync'']\<rparr>) slugify_model
     (example_meeting\<lparr>m_topic := Some ''Other''\<rparr>) = Inr True"
proof (intro conjI impI)
  show "topic_excluded (example_config\<lparr>TOPICS := [''weekly-sync'']\<rparr>) slugify_model
     (example_meeting\<lparr>m_topic := Some ''Weekly Sync''\<rparr>) = Inr False"
    by code_simp
  show "topic_excluded (example_config\<lparr>TOPICS := [''weekly-sync'']\<rparr>) slugify_model
     (example_meeting\<lparr>m_topic := Some ''Other''\<rparr>) = Inr True"
    by code_simp
qed (auto simp: topic_excluded_def bind_exn_def subscript_def)

text \<open>
  The theorem at the filter \<open>weekly-sync\<close>, for a meeting \<open>Weekly Sync\<close> and a meeting
  \<open>Other\<close>, neither with any files.
\<close>

theorem topic_filter_rule_witness:
  "m_topic (example_meeting\<lparr>m_topic := Some ''Weekly Sync''\<rparr>) = Some ''Weekly Sync'' \<and>
   topic_excluded (example_config\<lparr>TOPICS := [''weekly-sync'']\<rparr>) slugify_model
     (example_meeting\<lparr>m_topic := Some ''Weekly Sync''\<rparr>) = Inr False \<and>
   topic_excluded (example_config\<lparr>TOPICS := [''weekly-sync'']\<rparr>) slugify_model
     (example_meeting\<lparr>m_topic := Some ''Other''\<rparr>) = Inr True \<and>
   download_meetings (example_config\<lparr>TOPICS := [''weekly-sync'']\<rparr>) example_env slugify_model
     ''out'' [example_meeting\<lparr>m_topic := Some ''Weekly Sync''\<rparr>] (0, 0, 0) empty_world
     = (Returns (0, 0, 0), empty_world) \<and>
   download_meetings (example_config\<lparr>TOPICS := [''weekly-sync'']\<rparr>) example_env slugify_model
     ''out'' [example_meeting\<lparr>m_topic := Some ''Other''\<rparr>] (0, 0, 0) empty_world
     = (Returns (0, 0, 0), empty_world)"
proof -
  have f: "files_of_meeting (example_config\<lparr>TOPICS := [''weekly-sync'']\<rparr>)
             (example_meeting\<lparr>m_topic := Some ''Weekly Sync''\<rparr>) = []"
    "slugify_model ''Other'' = ''other''" "slugify_model ''Weekly Sync'' = ''weekly-sync''"
    by code_simp+
  show ?thesis
    using f
      topic_filter_rule [of "example_meeting\<lparr>m_topic := Some ''Weekly Sync''\<rparr>" "''Weekly Sync''"
        "example_config\<lparr>TOPICS := [''weekly-sync'']\<rparr>" slugify_model example_env "''out''" "[]"
        "(0, 0, 0)" empty_world]
      topic_filter_rule [of "example_meeting\<lparr>m_topic := Some ''Other''\<rparr>" "''Other''"
        "example_config\<lparr>TOPICS := [''weekly-sync'']\<rparr>" slugify_model example_env "''out''" "[]"
        "(0, 0, 0)" empty_world]
    by simp
qed

text \<open>
  C6 as the specification words its scenario fails: with the filter set to
  \<open>Weekly Sync\<close>, a meeting with the topic \<open>weekly-sync\<close> is excluded, since neither the
  topic nor its slug is the string \<open>Weekly Sync\<close>. This does not depend on how the slug is
  modelled: it holds for every \<open>slugify\<close> whose result has no capital letter.
\<close>

theorem topic_filter_scenario_counterexample:
  "slugify_model ''weekly-sync'' = ''weekly-sync'' \<and>
   topic_excluded (example_config\<lparr>TOPICS := [''Weekly Sync'']\<rparr>) slugify_model
     (example_meeting\<lparr>m_topic := Some ''weekly-sync''\<rparr>) = Inr True"
  by code_simp

lemma topic_filter_lowercase_slug:
  assumes "\<forall>c \<in> set (slugify ''weekly-sync''). \<not> is_upper c"
  shows "topic_excluded (cfg\<lparr>TOPICS := [''Weekly Sync'']\<rparr>) slugify (m\<lparr>m_topic := Some ''weekly-sync''\<rparr>)
           = Inr True"
proof -
  have "is_upper CHR ''W''" by (simp add: is_upper_def)
  then have "slugify ''weekly-sync'' \<noteq> ''Weekly Sync''" using assms by auto
  then show ?thesis by (simp add: topic_excluded_def bind_exn_def subscript_def)
qed

section \<open>Properties of the silence-log parser\<close>

lemma cut_segments_loop_only:
  fixes to_float :: "string \<Rightarrow> exn + 'f::ord"
  shows "cut_segments_loop to_float log_lines start end' cut_segments = Inr segs \<Longrightarrow>
   x \<in> set segs \<Longrightarrow>
   x \<in> set cut_segments \<or>
   (\<exists>s e before line after. x = (s, e, []) \<and> s < e \<and> log_lines = before @ line # after \<and>
        end_value to_float line = Some e \<and>
        (start = Some s \<or> (\<exists>line' \<in> set before. start_value to_float line' = Some s)))"
proof (induction log_lines arbitrary: start end' cut_segments)
  case Nil
  then show ?case by simp
next
  case (Cons line rest)
  let ?tag = "str_contains ''[silencedetect @'' line"
  let ?st = "str_contains ''silence_start'' line"
  let ?en = "str_contains ''silence_end'' line"
  have lift: "x \<in> set cut_segments \<or>
    (\<exists>s e before line' after. x = (s, e, []) \<and> s < e \<and> line # rest = before @ line' # after \<and>
        end_value to_float line' = Some e \<and>
        (start = Some s \<or> (\<exists>l \<in> set before. start_value to_float l = Some s)))"
    if "x \<in> set cut_segments \<or>
    (\<exists>s e before line' after. x = (s, e, []) \<and> s < e \<and> rest = before @ line' # after \<and>
        end_value to_float line' = Some e \<and>
        (start' = Some s \<or> (\<exists>l \<in> set before. start_value to_float l = Some s)))"
      and "start' = start \<or> start' = None \<or> start' = start_value to_float line" for start'
  proof -
    from that(1) show ?thesis
    proof
      assume "x \<in> set cut_segments" then show ?thesis by simp
    next
      assume "\<exists>s e before line' after. x = (s, e, []) \<and> s < e \<and> rest = before @ line' # after \<and>
        end_value to_float line' = Some e \<and>
        (start' = Some s \<or> (\<exists>l \<in> set before. start_value to_float l = Some s))"
      then obtain s e before line' after where h: "x = (s, e, [])" "s < e"
        "rest = before @ line' # after" "end_value to_float line' = Some e"
        "start' = Some s \<or> (\<exists>l \<in> set before. start_value to_float l = Some s)" by blast
      have "line # rest = (line # before) @ line' # after" using h(3) by simp
      moreover have "start = Some s \<or> (\<exists>l \<in> set (line # before). start_value to_float l = Some s)"
        using h(5) that(2) by auto
      ultimately show ?thesis using h(1,2,4) by blast
    qed
  qed
  show ?case
  proof (cases "?tag \<and> ?st")
    case True
    then obtain field v where f: "item (split_on CHR '':'' line) 1 = Inr field"
      "to_float (strip field) = Inr v"
      and r: "cut_segments_loop to_float rest (Some v) end' cut_segments = Inr segs"
      using Cons.prems(1) by (auto simp: bind_exn_def split: sum.splits)
    have sv: "start_value to_float line = Some v" using True f by (simp add: start_value_def bind_exn_def)
    show ?thesis using lift [OF Cons.IH [OF r Cons.prems(2)]] sv by simp
  next
    case nst: False
    show ?thesis
    proof (cases "?tag \<and> ?en")
      case True
      with nst have c: "?tag" "\<not> ?st" "?en" by auto
      then obtain field field' v where f: "item (split_on CHR '':'' line) 1 = Inr field"
        "item (split_on CHR ''|'' field) 0 = Inr field'" "to_float (strip field') = Inr v"
        using Cons.prems(1) by (auto simp: bind_exn_def split: sum.splits)
      have ev: "end_value to_float line = Some v" using c f by (simp add: end_value_def bind_exn_def)
      show ?thesis
      proof (cases "\<exists>s. start = Some s \<and> s < v")
        case True
        then obtain s where s: "start = Some s" "s < v" by blast
        then have r: "cut_segments_loop to_float rest None None (cut_segments @ [(s, v, [])]) = Inr segs"
          using Cons.prems(1) c f by (simp add: bind_exn_def)
        from Cons.IH [OF r Cons.prems(2)]
        have "x \<in> set cut_segments \<or> x = (s, v, []) \<or>
          (\<exists>s e before line' after. x = (s, e, []) \<and> s < e \<and> rest = before @ line' # after \<and>
            end_value to_float line' = Some e \<and>
            (None = Some s \<or> (\<exists>l \<in> set before. start_value to_float l = Some s)))"
          by auto
        then consider "x = (s, v, [])" | "x \<in> set cut_segments \<or>
          (\<exists>s e before line' after. x = (s, e, []) \<and> s < e \<and> rest = before @ line' # after \<and>
            end_value to_float line' = Some e \<and>
            (None = Some s \<or> (\<exists>l \<in> set before. start_value to_float l = Some s)))" by blast
        then show ?thesis
        proof cases
          case 1
          have "line # rest = [] @ line # rest" by simp
          then show ?thesis using 1 s ev by blast
        next
          case 2
          show ?thesis by (rule lift [OF 2]) simp
        qed
      next
        case False
        then have r: "cut_segments_loop to_float rest start (Some v) cut_segments = Inr segs"
          using Cons.prems(1) c f by (auto simp: bind_exn_def split: option.splits)
        show ?thesis by (rule lift [OF Cons.IH [OF r Cons.prems(2)]]) simp
      qed
    next
      case False
      with nst have r: "cut_segments_loop to_float rest start end' cut_segments = Inr segs"
        using Cons.prems(1) by (auto split: if_splits)
      show ?thesis by (rule lift [OF Cons.IH [OF r Cons.prems(2)]]) simp
    qed
  qed
qed

text \<open>
  C9. Every cut segment the parser emits has the empty name and \<open>end > start\<close>; its end
  is the value of a \<open>silence_end\<close> line of the silence detection and its start the value
  of a \<open>silence_start\<close> line of the silence detection before that line. The log in which
  the silence detection writes \<open>silence_start: 1.0\<close> and then
  \<open>silence_end: 4.5 | silence_duration: 3.5\<close> gives exactly the one segment from 1.0 to
  4.5, with the empty name.
\<close>

theorem cut_segments_only_after_start:
  fixes to_float :: "string \<Rightarrow> exn + 'f::ord"
  shows "(\<forall>segs x. cut_segments_of_log to_float log_lines = Inr segs \<and> x \<in> set segs \<longrightarrow>
            (\<exists>s e before line' line after.
               x = (s, e, []) \<and> s < e \<and> log_lines = before @ line # after \<and>
               end_value to_float line = Some e \<and>
               line' \<in> set before \<and> start_value to_float line' = Some s)) \<and>
         cut_segments_of_log decimal_float tagged_log = Inr [(1, 9 / 2, [])]"
proof (intro conjI allI impI)
  fix segs x
  assume a: "cut_segments_of_log to_float log_lines = Inr segs \<and> x \<in> set segs"
  then have "cut_segments_loop to_float log_lines None None [] = Inr segs" "x \<in> set segs"
    by (simp_all add: cut_segments_of_log_def)
  from cut_segments_loop_only [OF this]
  obtain s e before line after line' where
    "x = (s, e, [])" "s < e" "log_lines = before @ line # after"
    "end_value to_float line = Some e" "line' \<in> set before" "start_value to_float line' = Some s"
    by auto
  then show "\<exists>s e before line' line after.
               x = (s, e, []) \<and> s < e \<and> log_lines = before @ line # after \<and>
               end_value to_float line = Some e \<and>
               line' \<in> set before \<and> start_value to_float line' = Some s"
    by blast
next
  show "cut_segments_of_log decimal_float tagged_log = Inr [(1, 9 / 2, [])]"
    by code_simp
qed

text \<open>The theorem on the tagged log and its one segment.\<close>

theorem cut_segments_only_after_start_witness:
  "cut_segments_of_log decimal_float tagged_log = Inr [(1, 9 / 2, [])] \<and>
   (1, 9 / 2, []) \<in> set [(1 :: rat, 9 / 2 :: rat, [] :: string)] \<and>
   (\<exists>s e before line' line after.
      (1, 9 / 2, []) = (s, e, []) \<and> s < e \<and> tagged_log = before @ line # after \<and>
      end_value decimal_float line = Some e \<and>
      line' \<in> set before \<and> start_value decimal_float line' = Some s)"
proof -
  have r: "cut_segments_of_log decimal_float tagged_log = Inr [(1, 9 / 2, [])]"
    by code_simp
  have "\<exists>s e before line' line after.
      (1, 9 / 2, []) = (s, e, []) \<and> s < e \<and> tagged_log = before @ line # after \<and>
      end_value decimal_float line = Some e \<and>
      line' \<in> set before \<and> start_value decimal_float line' = Some s"
  proof -
    have m: "cut_segments_of_log decimal_float tagged_log = Inr [(1, 9 / 2, [])] \<and>
             (1 :: rat, 9 / 2 :: rat, [] :: string) \<in> set [(1, 9 / 2, [])]"
      using r by simp
    from cut_segments_only_after_start [of decimal_float tagged_log]
    have "\<forall>segs x. cut_segments_of_log decimal_float tagged_log = Inr segs \<and> x \<in> set segs \<longrightarrow>
            (\<exists>s e before line' line after.
               x = (s, e, []) \<and> s < e \<and> tagged_log = before @ line # after \<and>
               end_value decimal_float line = Some e \<and>
               line' \<in> set before \<and> start_value decimal_float line' = Some s)"
      by (rule conjunct1)
    then show ?thesis using m by blast
  qed
  then show ?thesis using r by simp
qed

section \<open>Properties of the downloader\<close>

lemma emit_simps [simp]:
  "disk (emit e w) = disk w" "events (emit e w) = events w @ [e]"
  "transfers (emit e w) = transfers w" "polls (emit e w) = polls w"
  by (simp_all add: emit_def)

lemma mkdir_if_missing_file:
  "(map_of (mkdir_if_missing ds fs d) q = Some (File n)) = (map_of fs q = Some (File n))"
  by (auto simp: mkdir_if_missing_def path_exists_def update_conv')

lemma foldl_mkdir_file:
  "(map_of (foldl (mkdir_if_missing ds) fs dirs) q = Some (File n)) = (map_of fs q = Some (File n))"
  by (induction dirs arbitrary: fs) (simp_all add: mkdir_if_missing_file)

lemma makedirs_file:
  "makedirs ds fs p = Inr fs' \<Longrightarrow> (map_of fs' q = Some (File n)) = (map_of fs q = Some (File n))"
  by (auto simp: makedirs_def foldl_mkdir_file mkdir_if_missing_file split: if_splits)

lemma same_files_refl [simp]: "same_files w w"
  by (simp add: same_files_def)

lemma same_files_trans: "same_files w w1 \<Longrightarrow> same_files w1 w2 \<Longrightarrow> same_files w w2"
  by (simp add: same_files_def)

lemma create_path_Inr:
  "create_path cfg ev host_folder file_name topic recording_name w = (Inr p, w') \<Longrightarrow>
   p = join (folder_of cfg host_folder topic recording_name) file_name \<and>
   events w' = events w \<and> transfers w' = transfers w \<and> polls w' = polls w \<and> same_files w w'"
  by (auto simp: create_path_def folder_of_def Let_def same_files_def makedirs_file split: sum.splits)

lemma create_path_Inl:
  "create_path cfg ev host_folder file_name topic recording_name w = (Inl e, w') \<Longrightarrow> w' = w"
  by (auto simp: create_path_def Let_def split: sum.splits)

lemma resolve_destination_Inr:
  "resolve_destination cfg ev host_folder file_name topic w = (Inr (name', p), w') \<Longrightarrow>
   events w' = events w \<and> transfers w' = transfers w \<and> polls w' = polls w \<and> same_files w w'"
  unfolding resolve_destination_def
  by (auto simp: Let_def split: sum.splits prod.splits if_splits
           dest!: create_path_Inr create_path_Inl intro: same_files_trans)

lemma resolve_destination_Inl:
  "resolve_destination cfg ev host_folder file_name topic w = (Inl e, w') \<Longrightarrow>
   events w' = events w \<and> transfers w' = transfers w \<and> polls w' = polls w \<and> same_files w w'"
  unfolding resolve_destination_def
  by (auto simp: Let_def split: sum.splits prod.splits if_splits
           dest!: create_path_Inr create_path_Inl intro: same_files_trans)


lemma download_with_progress_Inr:
  "download_with_progress ev url output_path expected_size size_tolerance w = (Inr u, w') \<Longrightarrow>
   \<exists>n. net ev (transfers w) url = Inr n \<and> \<bar>n - expected_size\<bar> \<le> size_tolerance \<and>
       \<not> is_dir (disk w) output_path \<and>
       w' = emit (Transfer url output_path (Some n))
              (w\<lparr>transfers := Suc (transfers w), disk := AList.update output_path (File n) (disk w)\<rparr>)"
  by (auto simp: download_with_progress_def Let_def split: if_splits sum.splits option.splits)

lemma download_with_progress_any:
  "download_with_progress ev url output_path expected_size size_tolerance w = (r, w') \<Longrightarrow>
   transfers w' = Suc (transfers w) \<and> polls w' = polls w \<and>
   (\<exists>res. events w' = events w @ [Transfer url output_path res]) \<and>
   (\<forall>q. q \<noteq> output_path \<longrightarrow> map_of (disk w') q = map_of (disk w) q)"
  by (auto simp: download_with_progress_def Let_def update_conv'
           split: if_splits sum.splits option.splits)

lemma rename_file_Inr:
  "map_of fs src = Some (File n) \<Longrightarrow> rename fs src dst = Inr fs' \<Longrightarrow>
   fs' = AList.update dst (File n) (AList.delete src fs)"
  by (auto simp: rename_def split: option.splits entry.splits)

lemma download_and_rename_Returns:
  assumes "download_and_rename cfg ev url file_path file_size w = (Returns b, w')"
  shows "b \<and> (\<exists>k n. wait_for_disk_space (free_disk ev) file_size (MINIMUM_FREE_DISK cfg) (polls w) = Some k \<and>
            net ev (transfers w) url = Inr n \<and>
            \<bar>n - file_size\<bar> \<le> FILE_SIZE_MISMATCH_TOLERANCE cfg \<and>
            events w' = events w @ [Transfer url (file_path @ ''.tmp'') (Some n),
                                    Renamed (file_path @ ''.tmp'') file_path] \<and>
            transfers w' = Suc (transfers w) \<and>
            disk w' = AList.update file_path (File n)
                        (AList.delete (file_path @ ''.tmp'')
                           (AList.update (file_path @ ''.tmp'') (File n) (disk w))))"
proof -
  from assms obtain k where k: "wait_for_disk_space (free_disk ev) file_size (MINIMUM_FREE_DISK cfg) (polls w) = Some k"
    by (auto simp: download_and_rename_def split: option.splits)
  let ?tmp = "file_path @ ''.tmp''"
  obtain r w1 where d: "download_with_progress ev url ?tmp file_size
                  (FILE_SIZE_MISMATCH_TOLERANCE cfg) (w\<lparr>polls := k\<rparr>) = (r, w1)"
    by (cases "download_with_progress ev url ?tmp file_size
                  (FILE_SIZE_MISMATCH_TOLERANCE cfg) (w\<lparr>polls := k\<rparr>)")
  from assms k d obtain u where r: "r = Inr u"
    by (cases r) (auto simp: download_and_rename_def Let_def)
  from download_with_progress_Inr [OF d [unfolded r]] obtain n where
    n: "net ev (transfers w) url = Inr n" "\<bar>n - file_size\<bar> \<le> FILE_SIZE_MISMATCH_TOLERANCE cfg"
    and w1: "w1 = emit (Transfer url ?tmp (Some n))
              (w\<lparr>polls := k, transfers := Suc (transfers w),
                 disk := AList.update ?tmp (File n) (disk w)\<rparr>)"
    by auto
  have tmp: "map_of (disk w1) ?tmp = Some (File n)" by (simp add: w1 update_conv')
  from assms k d r obtain fs' where
    rn: "rename (disk w1) ?tmp file_path = Inr fs'" and
    res: "b" "w' = emit (Renamed ?tmp file_path) (w1\<lparr>disk := fs'\<rparr>)"
    by (auto simp: download_and_rename_def Let_def split: sum.splits)
  have "fs' = AList.update file_path (File n) (AList.delete ?tmp (disk w1))"
    by (rule rename_file_Inr [OF tmp rn])
  then show ?thesis using k n res by (simp add: w1)
qed

lemma download_and_rename_any:
  assumes "download_and_rename cfg ev url file_path file_size w = (out, w')"
  shows "(\<exists>evs. events w' = events w @ evs) \<and>
         (\<forall>q m. map_of (disk w') q = Some (File m) \<longrightarrow>
                 map_of (disk w) q = Some (File m) \<or> q = file_path @ ''.tmp'' \<or>
                 (q = file_path \<and> \<bar>m - file_size\<bar> \<le> FILE_SIZE_MISMATCH_TOLERANCE cfg)) \<and>
         (\<forall>k. wait_for_disk_space (free_disk ev) file_size (MINIMUM_FREE_DISK cfg) (polls w) = Some k
            \<longrightarrow> transfers w' = Suc (transfers w) \<and>
                (\<exists>res rest. events w' = events w @ Transfer url (file_path @ ''.tmp'') res # rest)) \<and>
         (wait_for_disk_space (free_disk ev) file_size (MINIMUM_FREE_DISK cfg) (polls w) = None
            \<longrightarrow> out = Blocks \<and> w' = w)"
proof (cases "wait_for_disk_space (free_disk ev) file_size (MINIMUM_FREE_DISK cfg) (polls w)")
  case None
  then show ?thesis using assms by (simp add: download_and_rename_def)
next
  case (Some k)
  let ?tmp = "file_path @ ''.tmp''"
  obtain r w1 where d: "download_with_progress ev url ?tmp file_size
                  (FILE_SIZE_MISMATCH_TOLERANCE cfg) (w\<lparr>polls := k\<rparr>) = (r, w1)"
    by (cases "download_with_progress ev url ?tmp file_size
                  (FILE_SIZE_MISMATCH_TOLERANCE cfg) (w\<lparr>polls := k\<rparr>)")
  from download_with_progress_any [OF d] obtain res where
    a: "transfers w1 = Suc (transfers w)" "events w1 = events w @ [Transfer url ?tmp res]"
       "\<forall>q. q \<noteq> ?tmp \<longrightarrow> map_of (disk w1) q = map_of (disk w) q"
    by auto
  show ?thesis
  proof (cases out)
    case (Returns b)
    from download_and_rename_Returns [OF assms [unfolded Returns]] Some show ?thesis
      by (auto simp: update_conv' delete_conv' split: if_splits)
  next
    case (Raises e)
    have "w' = w1" using assms Some d Raises
      by (auto simp: download_and_rename_def Let_def split: sum.splits)
    then show ?thesis using a Some by auto
  next
    case Blocks
    then show ?thesis using assms Some d
      by (auto simp: download_and_rename_def Let_def split: sum.splits)
  qed
qed




lemma existing_or_download_cases:
  assumes "existing_or_download cfg ev url file_name file_path file_size w = (out, w')"
  shows "(\<exists>n. path_exists (disk w) file_path \<and> getsize (disk w) file_path = Inr n \<and>
              \<bar>n - file_size\<bar> \<le> FILE_SIZE_MISMATCH_TOLERANCE cfg \<and>
              out = Returns False \<and> w' = emit (Skipping_existing file_name) w) \<or>
         (\<exists>n. map_of (disk w) file_path = Some (Dir n) \<and>
              \<not> \<bar>n - file_size\<bar> \<le> FILE_SIZE_MISMATCH_TOLERANCE cfg \<and>
              out = Raises IsADirectoryError \<and> w' = w) \<or>
         (\<exists>n. map_of (disk w) file_path = Some (File n) \<and>
              \<not> \<bar>n - file_size\<bar> \<le> FILE_SIZE_MISMATCH_TOLERANCE cfg \<and>
              download_and_rename cfg ev url file_path file_size
                (emit (Removed file_path) (w\<lparr>disk := AList.delete file_path (disk w)\<rparr>)) = (out, w')) \<or>
         (map_of (disk w) file_path = None \<and>
              download_and_rename cfg ev url file_path file_size w = (out, w'))"
proof (cases "map_of (disk w) file_path")
  case None
  then show ?thesis using assms by (simp add: existing_or_download_def path_exists_def)
next
  case (Some en)
  show ?thesis
  proof (cases en)
    case (File n)
    then show ?thesis using assms Some
      by (cases "\<bar>n - file_size\<bar> \<le> FILE_SIZE_MISMATCH_TOLERANCE cfg")
         (simp_all add: existing_or_download_def path_exists_def getsize_def remove_def)
  next
    case (Dir n)
    then show ?thesis using assms Some
      by (cases "\<bar>n - file_size\<bar> \<le> FILE_SIZE_MISMATCH_TOLERANCE cfg")
         (auto simp: existing_or_download_def path_exists_def getsize_def remove_def)
  qed
qed

lemma existing_or_download_Returns:
  assumes "existing_or_download cfg ev url file_name file_path file_size w = (Returns b, w')"
  shows "(\<not> b \<and> w' = emit (Skipping_existing file_name) w \<and>
            (\<exists>n. path_exists (disk w) file_path \<and> getsize (disk w) file_path = Inr n \<and>
                  \<bar>n - file_size\<bar> \<le> FILE_SIZE_MISMATCH_TOLERANCE cfg)) \<or>
         (b \<and> (\<exists>pre n. (pre = [] \<or> pre = [Removed file_path]) \<and>
                  events w' = events w @ pre @ [Transfer url (file_path @ ''.tmp'') (Some n),
                                              Renamed (file_path @ ''.tmp'') file_path] \<and>
                  \<bar>n - file_size\<bar> \<le> FILE_SIZE_MISMATCH_TOLERANCE cfg \<and>
                  map_of (disk w') file_path = Some (File n) \<and>
                  map_of (disk w') (file_path @ ''.tmp'') = None))"
proof -
  from existing_or_download_cases [OF assms]
  consider
    (skip) n where "path_exists (disk w) file_path" "getsize (disk w) file_path = Inr n"
      "\<bar>n - file_size\<bar> \<le> FILE_SIZE_MISMATCH_TOLERANCE cfg" "b = False"
      "w' = emit (Skipping_existing file_name) w"
  | (removed) "download_and_rename cfg ev url file_path file_size
                (emit (Removed file_path) (w\<lparr>disk := AList.delete file_path (disk w)\<rparr>)) = (Returns b, w')"
  | (fresh) "download_and_rename cfg ev url file_path file_size w = (Returns b, w')"
    by auto
  then show ?thesis
  proof cases
    case skip
    then show ?thesis by auto
  next
    case removed
    from download_and_rename_Returns [OF removed] obtain n where
      "b" "\<bar>n - file_size\<bar> \<le> FILE_SIZE_MISMATCH_TOLERANCE cfg"
      "events w' = events w @ [Removed file_path] @ [Transfer url (file_path @ ''.tmp'') (Some n),
                                    Renamed (file_path @ ''.tmp'') file_path]"
      "map_of (disk w') file_path = Some (File n)"
      "map_of (disk w') (file_path @ ''.tmp'') = None"
      by (auto simp: update_conv' delete_conv')
    then show ?thesis by blast
  next
    case fresh
    from download_and_rename_Returns [OF fresh] obtain n where
      "b" "\<bar>n - file_size\<bar> \<le> FILE_SIZE_MISMATCH_TOLERANCE cfg"
      "events w' = events w @ [] @ [Transfer url (file_path @ ''.tmp'') (Some n),
                                    Renamed (file_path @ ''.tmp'') file_path]"
      "map_of (disk w') file_path = Some (File n)"
      "map_of (disk w') (file_path @ ''.tmp'') = None"
      by (auto simp: update_conv' delete_conv')
    then show ?thesis by blast
  qed
qed

lemma existing_or_download_files:
  assumes "existing_or_download cfg ev url file_name file_path file_size w = (out, w')"
      and "map_of (disk w') q = Some (File m)"
  shows "map_of (disk w) q = Some (File m) \<or> q = file_path @ ''.tmp'' \<or>
         (q = file_path \<and> \<bar>m - file_size\<bar> \<le> FILE_SIZE_MISMATCH_TOLERANCE cfg)"
proof -
  from existing_or_download_cases [OF assms(1)]
  consider
    (same) "disk w' = disk w"
  | (removed) "download_and_rename cfg ev url file_path file_size
                (emit (Removed file_path) (w\<lparr>disk := AList.delete file_path (disk w)\<rparr>)) = (out, w')"
  | (fresh) "download_and_rename cfg ev url file_path file_size w = (out, w')"
    by auto
  then show ?thesis
  proof cases
    case same
    then show ?thesis using assms(2) by simp
  next
    case removed
    from download_and_rename_any [OF removed] assms(2) show ?thesis
      by (auto simp: delete_conv' split: if_splits)
  next
    case fresh
    from download_and_rename_any [OF fresh] assms(2) show ?thesis by auto
  qed
qed

lemma download_recording_file_small:
  "of_int file_size < MIN_FILE_SIZE cfg * 1024 * 1024 \<Longrightarrow>
   download_recording_file cfg ev url host_folder file_name file_size topic w
     = (Returns False, emit (Skipping (re_sub_unsafe file_name)) w)"
  by (simp add: download_recording_file_def Let_def)

lemma download_recording_file_resolved:
  "\<not> of_int file_size < MIN_FILE_SIZE cfg * 1024 * 1024 \<Longrightarrow>
   resolve_destination cfg ev host_folder (re_sub_unsafe file_name) topic w = (Inr (name', file_path), w1) \<Longrightarrow>
   download_recording_file cfg ev url host_folder file_name file_size topic w
     = existing_or_download cfg ev url name' file_path file_size w1"
  by (simp add: download_recording_file_def Let_def)

lemma download_recording_file_unresolved:
  "\<not> of_int file_size < MIN_FILE_SIZE cfg * 1024 * 1024 \<Longrightarrow>
   resolve_destination cfg ev host_folder (re_sub_unsafe file_name) topic w = (Inl e, w1) \<Longrightarrow>
   download_recording_file cfg ev url host_folder file_name file_size topic w = (Raises e, w1)"
  by (simp add: download_recording_file_def Let_def)

lemma resolve_destination_cases:
  obtains (failed) e w1 where "resolve_destination cfg ev host_folder file_name topic w = (Inl e, w1)"
        | (resolved) name' file_path w1 where
            "resolve_destination cfg ev host_folder file_name topic w = (Inr (name', file_path), w1)"
proof (cases "resolve_destination cfg ev host_folder file_name topic w")
  case (Pair r w1)
  then show ?thesis by (cases r) (auto intro: failed resolved)
qed

text \<open>
  C8. For every minimum \<open>MIN_FILE_SIZE\<close>, a recording file handed to
  \<open>download_recording_file\<close> with \<open>file_size < MIN_FILE_SIZE * 1024 * 1024\<close> is never
  written to disk: the call returns \<open>False\<close> at once, without a change to the file system
  and without a transfer. The loop over the recording files then goes on with the file
  count and the total size as they were and the skipped count one higher; when the file is
  the last one, these are the counts the loop returns.
\<close>

theorem small_file_is_skipped:
  assumes "of_int file_size < MIN_FILE_SIZE cfg * 1024 * 1024"
  shows "download_recording_file cfg ev url host_folder file_name file_size topic w
           = (Returns False, emit (Skipping (re_sub_unsafe file_name)) w) \<and>
         disk (emit (Skipping (re_sub_unsafe file_name)) w) = disk w \<and>
         transfers (emit (Skipping (re_sub_unsafe file_name)) w) = transfers w \<and>
         (file_request cfg slugify m recording_file = Inr (Some (url, file_name, file_size, topic)) \<longrightarrow>
            download_files cfg ev slugify host_folder m (recording_file # rest)
              (file_count, total_size, skipped_count) w
            = download_files cfg ev slugify host_folder m rest
                (file_count, total_size, skipped_count + 1)
                (emit (Skipping (re_sub_unsafe file_name)) w) \<and>
            download_files cfg ev slugify host_folder m [recording_file]
              (file_count, total_size, skipped_count) w
            = (Returns (file_count, total_size, skipped_count + 1),
               emit (Skipping (re_sub_unsafe file_name)) w))"
  using download_recording_file_small [OF assms] by (simp add: tally_def)

text \<open>The theorem for a file of five bytes and a minimum of one megabyte.\<close>

theorem small_file_is_skipped_witness:
  "of_int 5 < MIN_FILE_SIZE example_config * 1024 * 1024 \<and>
   file_request example_config slugify_model mixed_meeting (standup_file ''https://zoom.example/rec/1'' 5)
     = Inr (Some (''https://zoom.example/rec/1'', ''Standup.mp4'', 5, ''Standup'')) \<and>
   download_recording_file example_config example_env ''https://zoom.example/rec/1'' ''out''
       ''Standup.mp4'' 5 ''Standup'' empty_world
     = (Returns False, emit (Skipping ''Standup.mp4'') empty_world) \<and>
   disk (emit (Skipping ''Standup.mp4'') empty_world) = [] \<and>
   transfers (emit (Skipping ''Standup.mp4'') empty_world) = 0 \<and>
   download_files example_config example_env slugify_model ''out'' mixed_meeting
       [standup_file ''https://zoom.example/rec/1'' 5] (0, 0, 0) empty_world
     = (Returns (0, 0, 1), emit (Skipping ''Standup.mp4'') empty_world)"
proof -
  have h: "of_int 5 < MIN_FILE_SIZE example_config * 1024 * 1024"
    "file_request example_config slugify_model mixed_meeting (standup_file ''https://zoom.example/rec/1'' 5)
     = Inr (Some (''https://zoom.example/rec/1'', ''Standup.mp4'', 5, ''Standup''))"
    "re_sub_unsafe ''Standup.mp4'' = ''Standup.mp4''"
    "disk empty_world = []" "transfers empty_world = 0"
    by code_simp+
  show ?thesis
    using h small_file_is_skipped [OF h(1), of example_env "''https://zoom.example/rec/1''" "''out''"
            "''Standup.mp4''" "''Standup''" empty_world slugify_model mixed_meeting
            "standup_file ''https://zoom.example/rec/1'' 5" "[]" 0 0 0]
    by (simp add: tally_def)
qed

text \<open>
  C5. When \<open>download_recording_file\<close> returns \<open>True\<close>, the last two things it did were
  the transfer to the temporary path \<open>file_path.tmp\<close>, which delivered a number of bytes
  within the tolerance of the expected size, and then the renaming of that path to
  \<open>file_path\<close>, the resolved destination; afterwards \<open>file_path\<close> holds a file of that size
  and nothing is left at \<open>file_path.tmp\<close>. And however the call ends, every regular file
  on disk afterwards was there before with the same size, or has a name ending in \<open>.tmp\<close>,
  or has a size within the tolerance of the expected size: no incomplete file is ever at
  a final path.
\<close>

theorem download_publishes_complete_file:
  "(download_recording_file cfg ev url host_folder file_name file_size topic w = (Returns True, w') \<longrightarrow>
      (\<exists>name' file_path w1 pre n.
         resolve_destination cfg ev host_folder (re_sub_unsafe file_name) topic w
           = (Inr (name', file_path), w1) \<and>
         (pre = [] \<or> pre = [Removed file_path]) \<and>
         events w' = events w @ pre @ [Transfer url (file_path @ ''.tmp'') (Some n),
                                      Renamed (file_path @ ''.tmp'') file_path] \<and>
         \<bar>n - file_size\<bar> \<le> FILE_SIZE_MISMATCH_TOLERANCE cfg \<and>
         map_of (disk w') file_path = Some (File n) \<and>
         map_of (disk w') (file_path @ ''.tmp'') = None)) \<and>
   (download_recording_file cfg ev url host_folder file_name file_size topic w = (out, w') \<longrightarrow>
      (\<forall>q m. map_of (disk w') q = Some (File m) \<longrightarrow>
              map_of (disk w) q = Some (File m) \<or> (\<exists>p. q = p @ ''.tmp'') \<or>
              \<bar>m - file_size\<bar> \<le> FILE_SIZE_MISMATCH_TOLERANCE cfg))"
proof (intro conjI impI allI)
  assume d: "download_recording_file cfg ev url host_folder file_name file_size topic w = (Returns True, w')"
  have ns: "\<not> of_int file_size < MIN_FILE_SIZE cfg * 1024 * 1024"
    using d download_recording_file_small [of file_size cfg ev url host_folder file_name topic w] by auto
  show "\<exists>name' file_path w1 pre n.
         resolve_destination cfg ev host_folder (re_sub_unsafe file_name) topic w
           = (Inr (name', file_path), w1) \<and>
         (pre = [] \<or> pre = [Removed file_path]) \<and>
         events w' = events w @ pre @ [Transfer url (file_path @ ''.tmp'') (Some n),
                                      Renamed (file_path @ ''.tmp'') file_path] \<and>
         \<bar>n - file_size\<bar> \<le> FILE_SIZE_MISMATCH_TOLERANCE cfg \<and>
         map_of (disk w') file_path = Some (File n) \<and>
         map_of (disk w') (file_path @ ''.tmp'') = None"
  proof (cases rule: resolve_destination_cases [of cfg ev host_folder "re_sub_unsafe file_name" topic w])
    case (failed e w1)
    then show ?thesis using d download_recording_file_unresolved [OF ns failed, of url] by simp
  next
    case (resolved name' file_path w1)
    have e: "existing_or_download cfg ev url name' file_path file_size w1 = (Returns True, w')"
      using d download_recording_file_resolved [OF ns resolved, of url] by simp
    from existing_or_download_Returns [OF e] obtain pre n where
      "pre = [] \<or> pre = [Removed file_path]"
      "events w' = events w1 @ pre @ [Transfer url (file_path @ ''.tmp'') (Some n),
                                     Renamed (file_path @ ''.tmp'') file_path]"
      "\<bar>n - file_size\<bar> \<le> FILE_SIZE_MISMATCH_TOLERANCE cfg"
      "map_of (disk w') file_path = Some (File n)"
      "map_of (disk w') (file_path @ ''.tmp'') = None"
      by auto
    then show ?thesis using resolved resolve_destination_Inr [OF resolved] by auto
  qed
next
  fix q m
  assume d: "download_recording_file cfg ev url host_folder file_name file_size topic w = (out, w')"
     and f: "map_of (disk w') q = Some (File m)"
  show "map_of (disk w) q = Some (File m) \<or> (\<exists>p. q = p @ ''.tmp'') \<or>
        \<bar>m - file_size\<bar> \<le> FILE_SIZE_MISMATCH_TOLERANCE cfg"
  proof (cases "of_int file_size < MIN_FILE_SIZE cfg * 1024 * 1024")
    case True
    then show ?thesis using d f download_recording_file_small [OF True, of ev url host_folder file_name topic w]
      by auto
  next
    case ns: False
    show ?thesis
    proof (cases rule: resolve_destination_cases [of cfg ev host_folder "re_sub_unsafe file_name" topic w])
      case (failed e w1)
      then show ?thesis
        using d f download_recording_file_unresolved [OF ns failed, of url]
          resolve_destination_Inl [OF failed] by (auto simp: same_files_def)
    next
      case (resolved name' file_path w1)
      have e: "existing_or_download cfg ev url name' file_path file_size w1 = (out, w')"
        using d download_recording_file_resolved [OF ns resolved, of url] by simp
      from existing_or_download_files [OF e f] resolve_destination_Inr [OF resolved]
      show ?thesis by (auto simp: same_files_def)
    qed
  qed
qed

text \<open>The theorem for a download into an empty output folder.\<close>

theorem download_publishes_complete_file_witness:
  "fst (download_recording_file example_config example_env ''https://zoom.example/rec/1'' ''out''
          ''Standup.mp4'' 2000000 ''Standup'' empty_world) = Returns True \<and>
   events (snd (download_recording_file example_config example_env ''https://zoom.example/rec/1''
          ''out'' ''Standup.mp4'' 2000000 ''Standup'' empty_world))
     = [Transfer ''https://zoom.example/rec/1'' ''out/Standup.mp4.tmp'' (Some 2000000),
        Renamed ''out/Standup.mp4.tmp'' ''out/Standup.mp4''] \<and>
   (\<exists>name' file_path w1 pre n.
      resolve_destination example_config example_env ''out'' (re_sub_unsafe ''Standup.mp4'')
        ''Standup'' empty_world = (Inr (name', file_path), w1) \<and>
      \<bar>n - 2000000\<bar> \<le> FILE_SIZE_MISMATCH_TOLERANCE example_config \<and>
      map_of (disk (snd (download_recording_file example_config example_env
          ''https://zoom.example/rec/1'' ''out'' ''Standup.mp4'' 2000000 ''Standup'' empty_world)))
        file_path = Some (File n) \<and>
      map_of (disk (snd (download_recording_file example_config example_env
          ''https://zoom.example/rec/1'' ''out'' ''Standup.mp4'' 2000000 ''Standup'' empty_world)))
        (file_path @ ''.tmp'') = None)"
proof -
  let ?r = "download_recording_file example_config example_env ''https://zoom.example/rec/1'' ''out''
          ''Standup.mp4'' 2000000 ''Standup'' empty_world"
  have h: "fst ?r = Returns True"
    "events (snd ?r)
     = [Transfer ''https://zoom.example/rec/1'' ''out/Standup.mp4.tmp'' (Some 2000000),
        Renamed ''out/Standup.mp4.tmp'' ''out/Standup.mp4'']"
    by code_simp+
  then have r: "?r = (Returns True, snd ?r)" by (metis prod.collapse)
  show ?thesis
    using h download_publishes_complete_file [of example_config example_env
            "''https://zoom.example/rec/1''" "''out''" "''Standup.mp4''" 2000000 "''Standup''"
            empty_world "snd ?r" "Returns True", THEN conjunct1, rule_format, OF r]
    by blast
qed

lemma download_recording_file_Returns:
  assumes "download_recording_file cfg ev url host_folder file_name file_size topic w = (Returns b, w')"
  shows "\<exists>evs. events w' = events w @ evs \<and>
           int (length (filter is_skip evs)) = (if b then 0 else 1) \<and>
           int (length (filter is_renamed evs)) = (if b then 1 else 0)"
proof (cases "of_int file_size < MIN_FILE_SIZE cfg * 1024 * 1024")
  case True
  from download_recording_file_small [OF True, of ev url host_folder file_name topic w] assms
  have "\<not> b" "events w' = events w @ [Skipping (re_sub_unsafe file_name)]" by auto
  then show ?thesis by (simp add: is_skip_def is_renamed_def)
next
  case ns: False
  show ?thesis
  proof (cases rule: resolve_destination_cases [of cfg ev host_folder "re_sub_unsafe file_name" topic w])
    case (failed e w1)
    then show ?thesis using assms download_recording_file_unresolved [OF ns failed, of url] by simp
  next
    case (resolved name' file_path w1)
    have e: "existing_or_download cfg ev url name' file_path file_size w1 = (Returns b, w')"
      using assms download_recording_file_resolved [OF ns resolved, of url] by simp
    have ev: "events w1 = events w" using resolve_destination_Inr [OF resolved] by simp
    from existing_or_download_Returns [OF e] show ?thesis
    proof
      assume "\<not> b \<and> w' = emit (Skipping_existing name') w1 \<and>
            (\<exists>n. path_exists (disk w1) file_path \<and> getsize (disk w1) file_path = Inr n \<and>
                  \<bar>n - file_size\<bar> \<le> FILE_SIZE_MISMATCH_TOLERANCE cfg)"
      then have "\<not> b" "events w' = events w @ [Skipping_existing name']" using ev by auto
      then show ?thesis by (simp add: is_skip_def is_renamed_def)
    next
      assume "b \<and> (\<exists>pre n. (pre = [] \<or> pre = [Removed file_path]) \<and>
                  events w' = events w1 @ pre @ [Transfer url (file_path @ ''.tmp'') (Some n),
                                              Renamed (file_path @ ''.tmp'') file_path] \<and>
                  \<bar>n - file_size\<bar> \<le> FILE_SIZE_MISMATCH_TOLERANCE cfg \<and>
                  map_of (disk w') file_path = Some (File n) \<and>
                  map_of (disk w') (file_path @ ''.tmp'') = None)"
      then obtain pre n where "b" "pre = [] \<or> pre = [Removed file_path]"
        "events w' = events w @ pre @ [Transfer url (file_path @ ''.tmp'') (Some n),
                                              Renamed (file_path @ ''.tmp'') file_path]"
        using ev by auto
      then show ?thesis by (auto simp: is_skip_def is_renamed_def)
    qed
  qed
qed

lemma download_recording_file_declined:
  assumes "download_recording_file cfg ev url host_folder file_name file_size topic w = (Returns False, w')"
  shows "(of_int file_size < MIN_FILE_SIZE cfg * 1024 * 1024 \<and>
          w' = emit (Skipping (re_sub_unsafe file_name)) w) \<or>
         (\<not> of_int file_size < MIN_FILE_SIZE cfg * 1024 * 1024 \<and>
          (\<exists>name' file_path w1 n.
             resolve_destination cfg ev host_folder (re_sub_unsafe file_name) topic w
               = (Inr (name', file_path), w1) \<and>
             path_exists (disk w1) file_path \<and> getsize (disk w1) file_path = Inr n \<and>
             \<bar>n - file_size\<bar> \<le> FILE_SIZE_MISMATCH_TOLERANCE cfg \<and>
             w' = emit (Skipping_existing name') w1))"
proof (cases "of_int file_size < MIN_FILE_SIZE cfg * 1024 * 1024")
  case True
  from download_recording_file_small [OF True, of ev url host_folder file_name topic w] assms True
  show ?thesis by simp
next
  case ns: False
  show ?thesis
  proof (cases rule: resolve_destination_cases [of cfg ev host_folder "re_sub_unsafe file_name" topic w])
    case (failed e w1)
    then show ?thesis using assms download_recording_file_unresolved [OF ns failed, of url] by simp
  next
    case (resolved name' file_path w1)
    have e: "existing_or_download cfg ev url name' file_path file_size w1 = (Returns False, w')"
      using assms download_recording_file_resolved [OF ns resolved, of url] by simp
    from existing_or_download_Returns [OF e] ns resolved show ?thesis by auto
  qed
qed

lemma download_files_counts:
  "download_files cfg ev slugify host_folder m files (file_count, total_size, skipped_count) w
     = (Returns (file_count', total_size', skipped_count'), w') \<Longrightarrow>
   \<exists>evs. events w' = events w @ evs \<and>
         skipped_count' = skipped_count + int (length (filter is_skip evs)) \<and>
         file_count' = file_count + int (length (filter is_renamed evs))"
proof (induction files arbitrary: file_count total_size skipped_count w)
  case Nil
  then show ?case by simp
next
  case (Cons recording_file rest)
  show ?case
  proof (cases "file_request cfg slugify m recording_file")
    case (Inl e)
    then show ?thesis using Cons.prems by simp
  next
    case (Inr req)
    show ?thesis
    proof (cases req)
      case None
      then show ?thesis using Cons.prems Inr Cons.IH by simp
    next
      case (Some args)
      obtain url file_name file_size topic where args: "args = (url, file_name, file_size, topic)"
        by (cases args)
      obtain out w1 where d: "download_recording_file cfg ev url host_folder file_name file_size topic w = (out, w1)"
        by (cases "download_recording_file cfg ev url host_folder file_name file_size topic w")
      from Cons.prems Inr Some args d obtain b where out: "out = Returns b"
        by (cases out) auto
      from download_recording_file_Returns [OF d [unfolded out]] obtain evs1 where
        e1: "events w1 = events w @ evs1"
            "int (length (filter is_skip evs1)) = (if b then 0 else 1)"
            "int (length (filter is_renamed evs1)) = (if b then 1 else 0)" by blast
      obtain fc1 ts1 sc1 where t: "tally b file_size (file_count, total_size, skipped_count) = (fc1, ts1, sc1)"
        by (cases "tally b file_size (file_count, total_size, skipped_count)")
      then have t': "sc1 = skipped_count + (if b then 0 else 1)" "fc1 = file_count + (if b then 1 else 0)"
        by (auto simp: tally_def split: if_splits)
      have rec: "download_files cfg ev slugify host_folder m rest (fc1, ts1, sc1) w1
                   = (Returns (file_count', total_size', skipped_count'), w')"
        using Cons.prems Inr Some args d out t by simp
      from Cons.IH [OF rec] obtain evs2 where
        e2: "events w' = events w1 @ evs2"
            "skipped_count' = sc1 + int (length (filter is_skip evs2))"
            "file_count' = fc1 + int (length (filter is_renamed evs2))" by blast
      show ?thesis
        by (rule exI [of _ "evs1 @ evs2"]) (use e1 e2 t' in auto)
    qed
  qed
qed

lemma download_meetings_counts:
  "download_meetings cfg ev slugify host_folder meetings (file_count, total_size, skipped_count) w
     = (Returns (file_count', total_size', skipped_count'), w') \<Longrightarrow>
   \<exists>evs. events w' = events w @ evs \<and>
         skipped_count' = skipped_count + int (length (filter is_skip evs)) \<and>
         file_count' = file_count + int (length (filter is_renamed evs))"
proof (induction meetings arbitrary: file_count total_size skipped_count w)
  case Nil
  then show ?case by simp
next
  case (Cons m rest)
  show ?case
  proof (cases "topic_excluded cfg slugify m")
    case (Inl e)
    then show ?thesis using Cons.prems by simp
  next
    case (Inr excluded)
    show ?thesis
    proof (cases excluded)
      case True
      then show ?thesis using Cons.prems Inr Cons.IH by simp
    next
      case False
      obtain out w1 where d: "download_files cfg ev slugify host_folder m (files_of_meeting cfg m)
                                (file_count, total_size, skipped_count) w = (out, w1)"
        by (cases "download_files cfg ev slugify host_folder m (files_of_meeting cfg m)
                                (file_count, total_size, skipped_count) w")
      from Cons.prems Inr False d obtain c1 where out: "out = Returns c1"
        by (cases out) auto
      obtain fc1 ts1 sc1 where c1: "c1 = (fc1, ts1, sc1)" by (cases c1)
      from download_files_counts [OF d [unfolded out c1]] obtain evs1 where
        e1: "events w1 = events w @ evs1"
            "sc1 = skipped_count + int (length (filter is_skip evs1))"
            "fc1 = file_count + int (length (filter is_renamed evs1))" by blast
      have rec: "download_meetings cfg ev slugify host_folder rest (fc1, ts1, sc1) w1
                   = (Returns (file_count', total_size', skipped_count'), w')"
        using Cons.prems Inr False d out c1 by simp
      from Cons.IH [OF rec] obtain evs2 where
        e2: "events w' = events w1 @ evs2"
            "skipped_count' = sc1 + int (length (filter is_skip evs2))"
            "file_count' = fc1 + int (length (filter is_renamed evs2))" by blast
      show ?thesis
        by (rule exI [of _ "evs1 @ evs2"]) (use e1 e2 in auto)
    qed
  qed
qed

text \<open>
  C10. When \<open>download_recordings_from_meetings\<close> returns, its skipped count is the number
  of skip messages of the run and its file count the number of renamings. A call of
  \<open>download_recording_file\<close> that returns \<open>False\<close> has declined the file for one of two
  reasons, a size below the minimum or an existing file within the tolerance at the
  resolved destination, and has left exactly one skip message; one that returns \<open>True\<close> has
  left none. A recording file without \<open>file_size\<close>, one whose type fails the file-type
  filter, and every file of a meeting excluded by the topic filter are stepped over: the
  counters and the world stay as they are.
\<close>

theorem skipped_count_counts_declined:
  "(download_recordings_from_meetings cfg ev slugify meetings host_folder w
      = (Returns (file_count, total_size, skipped_count), w') \<longrightarrow>
      (\<exists>evs. events w' = events w @ evs \<and>
             skipped_count = int (length (filter is_skip evs)) \<and>
             file_count = int (length (filter is_renamed evs)))) \<and>
   (download_recording_file cfg ev url host_folder file_name file_size topic w1 = (Returns False, w2) \<longrightarrow>
      (of_int file_size < MIN_FILE_SIZE cfg * 1024 * 1024 \<and>
       w2 = emit (Skipping (re_sub_unsafe file_name)) w1) \<or>
      (\<not> of_int file_size < MIN_FILE_SIZE cfg * 1024 * 1024 \<and>
       (\<exists>name' file_path w1' n.
          resolve_destination cfg ev host_folder (re_sub_unsafe file_name) topic w1
            = (Inr (name', file_path), w1') \<and>
          path_exists (disk w1') file_path \<and> getsize (disk w1') file_path = Inr n \<and>
          \<bar>n - file_size\<bar> \<le> FILE_SIZE_MISMATCH_TOLERANCE cfg \<and>
          w2 = emit (Skipping_existing name') w1'))) \<and>
   (download_recording_file cfg ev url host_folder file_name file_size topic w1 = (Returns True, w2) \<longrightarrow>
      (\<exists>evs. events w2 = events w1 @ evs \<and> filter is_skip evs = [])) \<and>
   (rf_file_size recording_file = None \<longrightarrow>
      download_files cfg ev slugify host_folder m (recording_file # rest) c w
        = download_files cfg ev slugify host_folder m rest c w) \<and>
   (rf_file_size recording_file \<noteq> None \<and> RECORDING_FILE_TYPES cfg \<noteq> [] \<and>
    rf_file_type recording_file = Some file_type \<and> file_type \<notin> set (RECORDING_FILE_TYPES cfg) \<longrightarrow>
      download_files cfg ev slugify host_folder m (recording_file # rest) c w
        = download_files cfg ev slugify host_folder m rest c w) \<and>
   (topic_excluded cfg slugify m = Inr True \<longrightarrow>
      download_meetings cfg ev slugify host_folder (m # others) c w
        = download_meetings cfg ev slugify host_folder others c w)"
proof (intro conjI impI)
  assume "download_recordings_from_meetings cfg ev slugify meetings host_folder w
      = (Returns (file_count, total_size, skipped_count), w')"
  then show "\<exists>evs. events w' = events w @ evs \<and>
             skipped_count = int (length (filter is_skip evs)) \<and>
             file_count = int (length (filter is_renamed evs))"
    using download_meetings_counts [of cfg ev slugify host_folder meetings 0 0 0 w
            file_count total_size skipped_count w']
    by (simp add: download_recordings_from_meetings_def)
next
  assume "download_recording_file cfg ev url host_folder file_name file_size topic w1 = (Returns False, w2)"
  then show "(of_int file_size < MIN_FILE_SIZE cfg * 1024 * 1024 \<and>
       w2 = emit (Skipping (re_sub_unsafe file_name)) w1) \<or>
      (\<not> of_int file_size < MIN_FILE_SIZE cfg * 1024 * 1024 \<and>
       (\<exists>name' file_path w1' n.
          resolve_destination cfg ev host_folder (re_sub_unsafe file_name) topic w1
            = (Inr (name', file_path), w1') \<and>
          path_exists (disk w1') file_path \<and> getsize (disk w1') file_path = Inr n \<and>
          \<bar>n - file_size\<bar> \<le> FILE_SIZE_MISMATCH_TOLERANCE cfg \<and>
          w2 = emit (Skipping_existing name') w1'))"
    by (rule download_recording_file_declined)
next
  assume "download_recording_file cfg ev url host_folder file_name file_size topic w1 = (Returns True, w2)"
  from download_recording_file_Returns [OF this]
  show "\<exists>evs. events w2 = events w1 @ evs \<and> filter is_skip evs = []" by auto
next
  assume "rf_file_size recording_file = None"
  then show "download_files cfg ev slugify host_folder m (recording_file # rest) c w
        = download_files cfg ev slugify host_folder m rest c w"
    by (simp add: file_request_def)
next
  assume "rf_file_size recording_file \<noteq> None \<and> RECORDING_FILE_TYPES cfg \<noteq> [] \<and>
    rf_file_type recording_file = Some file_type \<and> file_type \<notin> set (RECORDING_FILE_TYPES cfg)"
  then show "download_files cfg ev slugify host_folder m (recording_file # rest) c w
        = download_files cfg ev slugify host_folder m rest c w"
    by (auto simp: file_request_def bind_exn_def subscript_def)
next
  assume "topic_excluded cfg slugify m = Inr True"
  then show "download_meetings cfg ev slugify host_folder (m # others) c w
        = download_meetings cfg ev slugify host_folder others c w"
    by simp
qed

text \<open>
  The theorem for a meeting with four files, with the file-type filter set to MP4: one
  download, one file skipped as too small, two not counted.
\<close>

theorem skipped_count_counts_declined_witness:
  "fst (download_recordings_from_meetings (example_config\<lparr>RECORDING_FILE_TYPES := [''MP4'']\<rparr>)
          example_env slugify_model [mixed_meeting] ''out'' empty_world)
     = Returns (1, 2000000, 1) \<and>
   (\<exists>evs. events (snd (download_recordings_from_meetings
                         (example_config\<lparr>RECORDING_FILE_TYPES := [''MP4'']\<rparr>)
                         example_env slugify_model [mixed_meeting] ''out'' empty_world))
            = events empty_world @ evs \<and>
          (1 :: int) = int (length (filter is_skip evs)) \<and>
          (1 :: int) = int (length (filter is_renamed evs)))"
proof -
  let ?r = "download_recordings_from_meetings (example_config\<lparr>RECORDING_FILE_TYPES := [''MP4'']\<rparr>)
          example_env slugify_model [mixed_meeting] ''out'' empty_world"
  have h: "fst ?r = Returns (1, 2000000, 1)" by code_simp
  then have r: "?r = (Returns (1, 2000000, 1), snd ?r)" by (metis prod.collapse)
  show ?thesis
    using h skipped_count_counts_declined [of "example_config\<lparr>RECORDING_FILE_TYPES := [''MP4'']\<rparr>"
            example_env slugify_model "[mixed_meeting]" "''out''" empty_world 1 2000000 1 "snd ?r",
            THEN conjunct1, rule_format, OF r]
    by simp
qed

text \<open>
  C3 fails on the code when \<open>GROUP_BY_TOPIC\<close> is set: the names \<open>name_1\<close>, \<open>name_2\<close>, ... are
  probed in \<open>host_folder\<close>, while the destination lies in the topic folder. With
  \<open>Standup.mp4\<close> and \<open>Standup_1.mp4\<close> in the topic folder, a further \<open>Standup.mp4\<close> resolves
  to \<open>Standup_1.mp4\<close>, which is in use, and not to \<open>Standup_2.mp4\<close>. For a meeting with
  three such files and an empty output folder, the third download removes the second
  recording and takes its place: three files are counted and two are on disk.
\<close>

theorem probe_in_host_folder_reuses_name:
  "resolve_destination grouped_config sizes_env ''out'' ''Standup.mp4'' ''Standup'' (grouped_world 2000000)
     = (Inr (''Standup_1.mp4'', ''out/Standup/Standup_1.mp4''),
        (grouped_world 2000000)\<lparr>disk := disk (grouped_world 2000000)
           @ [(''out'', Dir 4096), (''out/Standup'', Dir 4096)]\<rparr>) \<and>
   path_exists (disk (grouped_world 2000000)) ''out/Standup/Standup_1.mp4'' \<and>
   \<not> path_exists (disk (grouped_world 2000000)) ''out/Standup/Standup_2.mp4'' \<and>
   download_recordings_from_meetings grouped_config sizes_env slugify_model [standup_meeting]
       ''out'' empty_world
     = (Returns (3, 11000000, 0),
        \<lparr>disk = [(''out'', Dir 4096), (''out/Standup'', Dir 4096),
                 (''out/Standup/Standup.mp4'', File 2000000),
                 (''out/Standup/Standup_1.mp4'', File 7000000)],
         events = [Transfer ''https://zoom.example/rec/1'' ''out/Standup/Standup.mp4.tmp'' (Some 2000000),
                   Renamed ''out/Standup/Standup.mp4.tmp'' ''out/Standup/Standup.mp4'',
                   Transfer ''https://zoom.example/rec/2'' ''out/Standup/Standup_1.mp4.tmp'' (Some 2000000),
                   Renamed ''out/Standup/Standup_1.mp4.tmp'' ''out/Standup/Standup_1.mp4'',
                   Removed ''out/Standup/Standup_1.mp4'',
                   Transfer ''https://zoom.example/rec/3'' ''out/Standup/Standup_1.mp4.tmp'' (Some 7000000),
                   Renamed ''out/Standup/Standup_1.mp4.tmp'' ''out/Standup/Standup_1.mp4''],
         transfers = 3, polls = 3\<rparr>)"
  by code_simp


















end
